theory Spec2Isabelle
  imports Complex_Main "HOL-Library.AList" "HOL-Library.List_Lexorder" "HOL-Library.Char_ord"
    "HOL-Library.Product_Lexorder"
begin

section \<open>Intelli-Therm: the control policy and its feature preparation\<close>

text \<open>
  The program is \<^verbatim>\<open>intelli_therm_model.py\<close>. Its numbers are Python floats; they are
  modelled as reals, and the missing-value marker of pandas (NaN) as \<open>None\<close>: a cell is a
  \<open>real option\<close>. Arithmetic on cells propagates the missing value, a comparison with a
  missing value is false, as in pandas.
\<close>

type_synonym cell = "real option"

text \<open>A pandas Series indexed by labels (one row of a table): labels with their values.\<close>

type_synonym row = "(string \<times> cell) list"

datatype error = KeyError | IndexError | PredictError

definition cmul :: "cell \<Rightarrow> cell \<Rightarrow> cell" where
  "cmul a b = (case a of None \<Rightarrow> None | Some x \<Rightarrow> (case b of None \<Rightarrow> None | Some y \<Rightarrow> Some (x * y)))"

definition csub :: "cell \<Rightarrow> cell \<Rightarrow> cell" where
  "csub a b = (case a of None \<Rightarrow> None | Some x \<Rightarrow> (case b of None \<Rightarrow> None | Some y \<Rightarrow> Some (x - y)))"

text \<open>
  A quotient by zero is \<^verbatim>\<open>inf\<close> or \<^verbatim>\<open>NaN\<close> in numpy, never a finite number. The model has
  no infinite cells and makes such a quotient missing. The program divides by a cell that
  can be zero only inside \<^verbatim>\<open>np.where\<close>, which does not take that quotient.
\<close>

definition cdiv :: "cell \<Rightarrow> cell \<Rightarrow> cell" where
  "cdiv a b =
     (case a of
        None \<Rightarrow> None
      | Some x \<Rightarrow> (case b of None \<Rightarrow> None | Some y \<Rightarrow> if y = 0 then None else Some (x / y)))"

subsection \<open>Python string operations used by the feature preparation\<close>

text \<open>\<^verbatim>\<open>sub in s\<close> on Python strings.\<close>

fun contains :: "string \<Rightarrow> string \<Rightarrow> bool" where
  "contains sub [] = (sub = [])"
| "contains sub (c # cs) = (take (length sub) (c # cs) = sub \<or> contains sub cs)"

text \<open>\<^verbatim>\<open>s.split(sub)[0]\<close>: the part of \<open>s\<close> before the first occurrence of \<open>sub\<close>
  (all of \<open>s\<close> when there is none); \<open>sub\<close> is not empty.\<close>

fun split_first :: "string \<Rightarrow> string \<Rightarrow> string" where
  "split_first sub [] = []"
| "split_first sub (c # cs) =
     (if take (length sub) (c # cs) = sub then [] else c # split_first sub cs)"

subsection \<open>\<^verbatim>\<open>prepare_features_for_prediction\<close>\<close>

text \<open>
  One pass of the loop over \<^verbatim>\<open>feature_list\<close>. \<^verbatim>\<open>features_df[feature] = v\<close> replaces the
  column when it exists and appends it otherwise, which is \<open>AList.update\<close>. The inner
  \<^verbatim>\<open>if base_feature in vehicle_data.columns\<close> has no \<^verbatim>\<open>else\<close>: nothing is assigned there.
\<close>

definition prepare_feature :: "row \<Rightarrow> row \<Rightarrow> string \<Rightarrow> row" where
  "prepare_feature vehicle_data features_df feature =
     (case map_of vehicle_data feature of
        Some v \<Rightarrow> AList.update feature v features_df
      | None \<Rightarrow>
          if contains ''_lag'' feature then
            (let base_feature = split_first ''_lag'' feature in
             case map_of vehicle_data base_feature of
               Some v \<Rightarrow> AList.update feature v features_df
             | None \<Rightarrow> features_df)
          else AList.update feature (Some 0) features_df)"

definition prepare_features_for_prediction :: "row \<Rightarrow> string list \<Rightarrow> row" where
  "prepare_features_for_prediction vehicle_data feature_list =
     foldl (prepare_feature vehicle_data) [] feature_list"

subsection \<open>\<^verbatim>\<open>run_intelli_therm\<close>\<close>

text \<open>
  The trained regressor is a parameter: \<^verbatim>\<open>model.predict(current_features)[0]\<close> either
  yields a load or raises.
\<close>

type_synonym model = "row \<Rightarrow> error + real"

definition status_reduce :: string where
  "status_reduce = ''Reducing heater power by 15% due to predicted high power demand''"

definition status_maintain :: string where
  "status_maintain = ''Maintaining normal heater power''"

text \<open>Step 3: the baseline heater power of the row, 1000 W when the row has no such label.\<close>

definition base_heater_power :: "row \<Rightarrow> cell" where
  "base_heater_power vehicle_data =
     (case map_of vehicle_data ''heater_power_W'' of Some b \<Rightarrow> b | None \<Rightarrow> Some 1000)"

definition run_intelli_therm :: "row \<Rightarrow> model \<Rightarrow> real \<Rightarrow> string list \<Rightarrow> error + (cell \<times> string \<times> real)" where
  "run_intelli_therm vehicle_data model high_power_threshold feature_list =
     (let current_features = prepare_features_for_prediction vehicle_data feature_list in
      case model current_features of
        Inl e \<Rightarrow> Inl e
      | Inr predicted_load \<Rightarrow>
          (let b = base_heater_power vehicle_data in
           if predicted_load > high_power_threshold
           then Inr (cmul b (Some 0.85), status_reduce, predicted_load)
           else Inr (b, status_maintain, predicted_load)))"

section \<open>The trip split of \<^verbatim>\<open>prepare_data_for_modeling\<close>\<close>

text \<open>\<^verbatim>\<open>Series.unique()\<close>: the distinct values, in the order of their first appearance.\<close>

fun unique :: "'a list \<Rightarrow> 'a list" where
  "unique [] = []"
| "unique (x # xs) = x # unique (removeAll x xs)"

text \<open>
  \<^verbatim>\<open>int(len(sorted_trip_ids) * 0.7)\<close> is computed in binary floating point, and the rounding
  is visible in the result (\<^verbatim>\<open>int(90 * 0.7)\<close> is 62), so it is written out. The literal
  \<^verbatim>\<open>0.7\<close> is the double \<open>3152519739159347 / 2 ^ 52\<close>. A double has 53 significant bits:
  \<open>round_to_double m\<close> is the nonnegative integer \<open>m\<close> rounded to 53 significant bits, ties to
  the even neighbour. The length is converted to a double, the product of the two doubles
  is rounded, and \<^verbatim>\<open>int\<close> truncates it.
\<close>

function bit_length :: "int \<Rightarrow> nat" where
  "bit_length n = (if n \<le> 0 then 0 else Suc (bit_length (n div 2)))"
  by pat_completeness auto
termination
  by (relation "measure nat") auto

definition round_to_double :: "int \<Rightarrow> int" where
  "round_to_double m =
     (let s = bit_length m - 53; q = m div 2 ^ s; r = m mod 2 ^ s in
      if 2 * r > 2 ^ s \<or> (2 * r = 2 ^ s \<and> odd q) then (q + 1) * 2 ^ s else q * 2 ^ s)"

definition int_times_0_7 :: "int \<Rightarrow> int" where
  "int_times_0_7 n = round_to_double (round_to_double n * 3152519739159347) div 2 ^ 52"

text \<open>\<^verbatim>\<open>split_idx = max(1, int(len(sorted_trip_ids) * 0.7))\<close>\<close>

definition split_idx :: "nat \<Rightarrow> nat" where
  "split_idx n = nat (max 1 (int_times_0_7 (int n)))"

text \<open>
  The train and test trip identifiers, from the \<^verbatim>\<open>trip_id\<close> column of the valid rows
  (\<^verbatim>\<open>df[valid_mask]['trip_id']\<close>). With fewer than two trips both lists are all the trips.
\<close>

definition split_trip_ids :: "string list \<Rightarrow> string list \<times> string list" where
  "split_trip_ids valid_rows_trip_id =
     (let valid_trip_ids = unique valid_rows_trip_id in
      if length valid_trip_ids < 2 then (valid_trip_ids, valid_trip_ids)
      else
        (let sorted_trip_ids = sort valid_trip_ids;
             k = split_idx (length sorted_trip_ids)
         in (take k sorted_trip_ids, drop k sorted_trip_ids)))"

section \<open>Tables\<close>

text \<open>
  A pandas DataFrame of telemetry, column by column: the \<^verbatim>\<open>trip_id\<close> column, and the
  numeric columns in their order, each with its name. Every column of a DataFrame has one
  cell per row (\<open>rectangular\<close>).
\<close>

record frame =
  trip_id :: "string list"
  cols :: "(string \<times> cell list) list"

definition nrows :: "frame \<Rightarrow> nat" where
  "nrows df = length (trip_id df)"

definition rectangular :: "frame \<Rightarrow> bool" where
  "rectangular df = list_all (\<lambda>nc. length (snd nc) = nrows df) (cols df)"

text \<open>\<^verbatim>\<open>df[name]\<close>, and \<open>None\<close> when \<^verbatim>\<open>name not in df.columns\<close>.\<close>

definition column :: "frame \<Rightarrow> string \<Rightarrow> cell list option" where
  "column df name = map_of (cols df) name"

text \<open>\<^verbatim>\<open>df[name] = c\<close>: the column is replaced where it is, or appended.\<close>

definition set_column :: "string \<Rightarrow> cell list \<Rightarrow> frame \<Rightarrow> frame" where
  "set_column name c df = df\<lparr>cols := AList.update name c (cols df)\<rparr>"

text \<open>\<^verbatim>\<open>df[mask]\<close> for a boolean mask with one entry per row.\<close>

definition select_rows :: "bool list \<Rightarrow> 'a list \<Rightarrow> 'a list" where
  "select_rows keep xs = map snd (filter fst (zip keep xs))"

definition mask_rows :: "bool list \<Rightarrow> frame \<Rightarrow> frame" where
  "mask_rows keep df =
     \<lparr>trip_id = select_rows keep (trip_id df),
      cols = map (\<lambda>nc. (fst nc, select_rows keep (snd nc))) (cols df)\<rparr>"

text \<open>\<^verbatim>\<open>df[df['trip_id'] == t]\<close>\<close>

definition trip_rows :: "string \<Rightarrow> frame \<Rightarrow> frame" where
  "trip_rows t df = mask_rows (map (\<lambda>x. x = t) (trip_id df)) df"

text \<open>The rows of \<^verbatim>\<open>df.iterrows()\<close>, each a Series labelled by the numeric columns.\<close>

definition row_at :: "frame \<Rightarrow> nat \<Rightarrow> row" where
  "row_at df i = map (\<lambda>nc. (fst nc, snd nc ! i)) (cols df)"

definition iterrows :: "frame \<Rightarrow> row list" where
  "iterrows df = map (row_at df) [0..<nrows df]"

subsection \<open>Column operations of pandas\<close>

text \<open>\<^verbatim>\<open>Series.diff()\<close>: the first cell is missing, the others are the difference to the
  cell before.\<close>

definition diff :: "cell list \<Rightarrow> cell list" where
  "diff xs = (case xs of [] \<Rightarrow> [] | x # r \<Rightarrow> None # map2 (\<lambda>prev cur. csub cur prev) xs r)"

definition fillna :: "real \<Rightarrow> cell \<Rightarrow> cell" where
  "fillna v c = (case c of None \<Rightarrow> Some v | Some x \<Rightarrow> Some x)"

text \<open>\<^verbatim>\<open>Series.sum()\<close> skips the missing cells.\<close>

definition sum_skipna :: "cell list \<Rightarrow> real" where
  "sum_skipna cs = sum_list (map (\<lambda>c. case c of None \<Rightarrow> 0 | Some v \<Rightarrow> v) cs)"

text \<open>The cells that are not missing.\<close>

definition non_null :: "cell list \<Rightarrow> real list" where
  "non_null cs = List.map_filter id cs"

text \<open>\<^verbatim>\<open>Series.mean()\<close> and \<^verbatim>\<open>Series.std()\<close> skip the missing cells; the standard
  deviation is the sample one (divisor \<open>n - 1\<close>) and is missing for fewer than two values.\<close>

definition mean :: "cell list \<Rightarrow> cell" where
  "mean cs =
     (let vs = non_null cs in
      if vs = [] then None else Some (sum_list vs / real (length vs)))"

definition std :: "cell list \<Rightarrow> cell" where
  "std cs =
     (let vs = non_null cs; n = length vs; mu = sum_list vs / real n in
      if n < 2 then None
      else Some (sqrt (sum_list (map (\<lambda>v. (v - mu) ^ 2) vs) / real (n - 1))))"

text \<open>\<^verbatim>\<open>Series.shift(k)\<close> for \<open>k \<ge> 0\<close>: every value moves \<open>k\<close> rows down, the first rows are
  missing. \<^verbatim>\<open>Series.shift(-h)\<close>: every value moves \<open>h\<close> rows up, the last rows are missing.\<close>

definition shift_down :: "nat \<Rightarrow> cell list \<Rightarrow> cell list" where
  "shift_down k xs = replicate (min k (length xs)) None @ take (length xs - k) xs"

definition shift_up :: "nat \<Rightarrow> cell list \<Rightarrow> cell list" where
  "shift_up h xs = drop h xs @ replicate (min h (length xs)) None"

text \<open>\<^verbatim>\<open>bfill()\<close>: a missing cell takes the next value below it that is not missing, and
  stays missing when there is none.\<close>

fun bfill :: "cell list \<Rightarrow> cell list" where
  "bfill [] = []"
| "bfill (x # xs) =
     (let r = bfill xs in
      (case x of Some v \<Rightarrow> Some v | None \<Rightarrow> (case r of [] \<Rightarrow> None | y # _ \<Rightarrow> y)) # r)"

text \<open>
  \<^verbatim>\<open>df.sort_values(name).reset_index(drop=True)\<close>: the rows in ascending order of the
  column, missing keys last. pandas sorts with quicksort, which may put rows with equal keys
  in any order. The order it takes is a parameter of the model: \<open>order keys\<close> lists the row
  numbers in the order of the result. \<open>sorting_order\<close> says what pandas promises of it, and
  \<open>stable_order\<close> is the order that keeps rows with equal keys as they were.
\<close>

definition sort_key_of :: "cell \<Rightarrow> nat \<times> real" where
  "sort_key_of c = (case c of None \<Rightarrow> (1, 0) | Some v \<Rightarrow> (0, v))"

definition take_rows :: "nat list \<Rightarrow> 'a list \<Rightarrow> 'a list" where
  "take_rows idx xs = map (\<lambda>i. xs ! i) idx"

definition sort_values :: "(cell list \<Rightarrow> nat list) \<Rightarrow> string \<Rightarrow> frame \<Rightarrow> frame" where
  "sort_values order name df =
     (case column df name of
        None \<Rightarrow> df
      | Some k \<Rightarrow>
          \<lparr>trip_id = take_rows (order k) (trip_id df),
           cols = map (\<lambda>nc. (fst nc, take_rows (order k) (snd nc))) (cols df)\<rparr>)"

definition sorting_order :: "(cell list \<Rightarrow> nat list) \<Rightarrow> bool" where
  "sorting_order order =
     (\<forall>keys. distinct (order keys) \<and> set (order keys) = {..<length keys}
             \<and> sorted (map (\<lambda>i. sort_key_of (keys ! i)) (order keys)))"

definition stable_order :: "cell list \<Rightarrow> nat list" where
  "stable_order keys =
     map snd (sort_key (\<lambda>p. sort_key_of (fst p)) (zip keys [0..<length keys]))"

text \<open>
  The first step of the loop bodies: \<^verbatim>\<open>time_col = 'time_s' if 'time_s' in trip_df.columns
  else 'timestamp'\<close>, and the trip sorted by that column when it has it.
\<close>

definition time_column :: "frame \<Rightarrow> string" where
  "time_column trip_df = (if column trip_df ''time_s'' \<noteq> None then ''time_s'' else ''timestamp'')"

definition sorted_trip :: "(cell list \<Rightarrow> nat list) \<Rightarrow> frame \<Rightarrow> frame" where
  "sorted_trip order trip_df =
     (if column trip_df (time_column trip_df) \<noteq> None
      then sort_values order (time_column trip_df) trip_df
      else trip_df)"

text \<open>\<^verbatim>\<open>pd.concat(dfs, ignore_index=True)\<close>: the rows of the tables one after the other; the
  columns are those of all the tables in the order of their first appearance, and a table
  without a column contributes missing cells.\<close>

definition concat_frames :: "frame list \<Rightarrow> frame" where
  "concat_frames dfs =
     \<lparr>trip_id = concat (map trip_id dfs),
      cols = map (\<lambda>name. (name, concat (map (\<lambda>df. case column df name of
                                                     Some c \<Rightarrow> c
                                                   | None \<Rightarrow> replicate (nrows df) None) dfs)))
                 (unique (concat (map (\<lambda>df. map fst (cols df)) dfs)))\<rparr>"

text \<open>\<^verbatim>\<open>s.lower()\<close> on the ASCII letters.\<close>

definition lower_char :: "char \<Rightarrow> char" where
  "lower_char c =
     (let n = (of_char c :: nat) in if 65 \<le> n \<and> n \<le> 90 then char_of (n + 32) else c)"

definition lower :: "string \<Rightarrow> string" where
  "lower s = map lower_char s"

section \<open>\<^verbatim>\<open>simulate_complete_trip\<close>\<close>

text \<open>The trip that is replayed: the first test trip, or \<^verbatim>\<open>'B30'\<close> when there is none.\<close>

definition test_trip :: "frame \<Rightarrow> string list \<Rightarrow> frame" where
  "test_trip df test_trip_ids =
     (let test_trip_id = (case test_trip_ids of [] \<Rightarrow> ''B30'' | t # _ \<Rightarrow> t)
      in trip_rows test_trip_id df)"

text \<open>A trip without heater readings is given 2000 W in every row.\<close>

definition with_heater :: "frame \<Rightarrow> frame" where
  "with_heater test_trip_df =
     (if column test_trip_df ''heater_power_W'' = None
      then set_column ''heater_power_W'' (replicate (nrows test_trip_df) (Some 2000)) test_trip_df
      else test_trip_df)"

text \<open>The loop over the rows; an exception of the model ends it.\<close>

fun run_rows :: "row list \<Rightarrow> model \<Rightarrow> real \<Rightarrow> string list \<Rightarrow> error + (cell \<times> string \<times> real) list" where
  "run_rows [] model high_power_threshold feature_list = Inr []"
| "run_rows (current_state # rest) model high_power_threshold feature_list =
     (case run_intelli_therm current_state model high_power_threshold feature_list of
        Inl e \<Rightarrow> Inl e
      | Inr result \<Rightarrow>
          (case run_rows rest model high_power_threshold feature_list of
             Inl e \<Rightarrow> Inl e
           | Inr results \<Rightarrow> Inr (result # results)))"

text \<open>
  The time differences between the rows: \<^verbatim>\<open>df[time_col].diff().fillna(0)\<close>, or 1 in
  every row when the trip has no time column.
\<close>

definition trip_time_diff :: "frame \<Rightarrow> cell list" where
  "trip_time_diff trip_df =
     (let time_col = (if column trip_df ''time_s'' \<noteq> None then ''time_s'' else ''timestamp'')
      in case column trip_df time_col of
           Some c \<Rightarrow> map (fillna 0) (diff c)
         | None \<Rightarrow> replicate (nrows trip_df) (Some 1))"

text \<open>The sum of \<^verbatim>\<open>power * time_diff\<close> over the rows.\<close>

definition heater_energy :: "cell list \<Rightarrow> cell list \<Rightarrow> real" where
  "heater_energy heater_powers time_diff = sum_skipna (map2 cmul heater_powers time_diff)"

text \<open>
  The simulation up to the two totals \<^verbatim>\<open>baseline_energy\<close> and \<^verbatim>\<open>optimized_energy\<close>;
  \<open>None\<close> when the trip has no rows. The model, the threshold and the table are given
  (the function returns at once when one of them is \<^verbatim>\<open>None\<close>). The rows are replayed in
  the order of the table: this function does not sort them by time.
\<close>

definition trip_energies :: "frame \<Rightarrow> model \<Rightarrow> real \<Rightarrow> string list \<Rightarrow> string list \<Rightarrow> error + (real \<times> real) option" where
  "trip_energies df model high_power_threshold feature_list test_trip_ids =
     (let test_trip_df = test_trip df test_trip_ids in
      if nrows test_trip_df = 0 then Inr None
      else
        (let test_trip_df = with_heater test_trip_df in
         case run_rows (iterrows test_trip_df) model high_power_threshold feature_list of
           Inl e \<Rightarrow> Inl e
         | Inr results \<Rightarrow>
             (let new_heater_powers = map fst results;
                  time_diff = trip_time_diff test_trip_df
              in case column test_trip_df ''heater_power_W'' of
                   None \<Rightarrow> Inl KeyError
                 | Some heater_power \<Rightarrow>
                     Inr (Some (heater_energy heater_power time_diff,
                                heater_energy new_heater_powers time_diff)))))"

definition simulate_complete_trip :: "frame \<Rightarrow> model \<Rightarrow> real \<Rightarrow> string list \<Rightarrow> string list \<Rightarrow> error + (real \<times> real) option" where
  "simulate_complete_trip df model high_power_threshold feature_list test_trip_ids =
     (case trip_energies df model high_power_threshold feature_list test_trip_ids of
        Inl e \<Rightarrow> Inl e
      | Inr None \<Rightarrow> Inr None
      | Inr (Some (baseline_energy, optimized_energy)) \<Rightarrow>
          (let energy_saved = baseline_energy - optimized_energy;
               percentage_saved = (if baseline_energy > 0 then energy_saved / baseline_energy * 100 else 0);
               estimated_range_improvement = percentage_saved * 0.8
           in Inr (Some (percentage_saved, estimated_range_improvement))))"

section \<open>Example tables\<close>

text \<open>Two trips: two samples at 1 Hz with a 2000 W heater, and one sample of another trip
  whose heater channel reads below zero.\<close>

definition two_trip_table :: frame where
  "two_trip_table =
     \<lparr>trip_id = [''T1'', ''T1'', ''T2''],
      cols = [(''time_s'', [Some 0, Some 1, Some 0]),
              (''heater_power_W'', [Some 2000, Some 2000, Some (- 5)])]\<rparr>"

text \<open>One trip of two samples whose heater channel reads below zero.\<close>

definition negative_heater_trip :: frame where
  "negative_heater_trip =
     \<lparr>trip_id = [''T1'', ''T1''],
      cols = [(''time_s'', [Some 0, Some 1]),
              (''heater_power_W'', [Some (- 1000), Some (- 1000)])]\<rparr>"

text \<open>One trip of sixteen samples at 1 Hz, the speed rising by 5.76 km/h (1.6 m/s) per second.\<close>

definition ramp_trip :: frame where
  "ramp_trip =
     \<lparr>trip_id = [''R1'', ''R1'', ''R1'', ''R1'', ''R1'', ''R1'', ''R1'', ''R1'', ''R1'', ''R1'', ''R1'', ''R1'', ''R1'', ''R1'', ''R1'', ''R1''],
      cols = [(''time_s'', [Some 0, Some 1, Some 2, Some 3, Some 4, Some 5, Some 6, Some 7, Some 8, Some 9, Some 10, Some 11, Some 12, Some 13, Some 14, Some 15]),
              (''speed_kmh'', [Some 0, Some 5.76, Some 11.52, Some 17.28, Some 23.04, Some 28.8, Some 34.56, Some 40.32, Some 46.08, Some 51.84, Some 57.6, Some 63.36, Some 69.12, Some 74.88, Some 80.64, Some 86.4])]\<rparr>"

text \<open>Its acceleration before the clean-up, and after it.\<close>

definition ramp_raw :: "cell list" where
  "ramp_raw = [Some 0, Some 1.6, Some 1.6, Some 1.6, Some 1.6, Some 1.6, Some 1.6, Some 1.6, Some 1.6, Some 1.6, Some 1.6, Some 1.6, Some 1.6, Some 1.6, Some 1.6, Some 1.6]"

definition ramp_acceleration :: "cell list" where
  "ramp_acceleration = [Some 0.3, Some 1.6, Some 1.6, Some 1.6, Some 1.6, Some 1.6, Some 1.6, Some 1.6, Some 1.6, Some 1.6, Some 1.6, Some 1.6, Some 1.6, Some 1.6, Some 1.6, Some 1.6]"


text \<open>One trip of two samples with a throttle channel and no speed channel.\<close>

definition throttle_only_trip :: frame where
  "throttle_only_trip =
     \<lparr>trip_id = [''T1'', ''T1''],
      cols = [(''time_s'', [Some 0, Some 1]),
              (''throttle_pedal_%'', [Some 10, Some 20])]\<rparr>"



text \<open>The sample trip \<^verbatim>\<open>'A01'\<close> at a constant 36 km/h, three samples at 1 Hz with the two
  battery channels, and the same table with the load column.\<close>

definition cruise_table :: frame where
  "cruise_table =
     \<lparr>trip_id = [''A01'', ''A01'', ''A01''],
      cols = [(''time_s'', [Some 0, Some 1, Some 2]),
              (''speed_kmh'', [Some 36, Some 36, Some 36]),
              (''battery_voltage_V'', [Some 400, Some 400, Some 400]),
              (''battery_current_A'', [Some 10, Some 10, Some 10])]\<rparr>"

definition cruise_loaded :: frame where
  "cruise_loaded =
     \<lparr>trip_id = [''A01'', ''A01'', ''A01''],
      cols = [(''time_s'', [Some 0, Some 1, Some 2]),
              (''speed_kmh'', [Some 36, Some 36, Some 36]),
              (''battery_voltage_V'', [Some 400, Some 400, Some 400]),
              (''battery_current_A'', [Some 10, Some 10, Some 10]),
              (''powertrain_load_W'', [Some 4000, Some 4000, Some 4000])]\<rparr>"

section \<open>\<^verbatim>\<open>create_rate_of_change_features\<close>\<close>

text \<open>
  \<^verbatim>\<open>np.where((time_diff != 0) & (~time_diff.isna()), value_diff / time_diff, 0)\<close>, row by
  row: the quotient where the time difference is present and not zero, and 0 elsewhere.
\<close>

definition guarded_rate :: "cell list \<Rightarrow> cell list \<Rightarrow> cell list" where
  "guarded_rate value_diff time_diff =
     map2 (\<lambda>vd td. if td \<noteq> Some 0 \<and> td \<noteq> None then cdiv vd td else Some 0) value_diff time_diff"

text \<open>
  The clean-up of extreme values. The mean and the standard deviation are taken once,
  before any cell is changed; the cells above \<open>mean + 3 * std\<close> are set to it, then the cells
  below \<open>mean - 3 * std\<close> are set to that.
\<close>

definition clip_upper :: "real \<Rightarrow> cell \<Rightarrow> cell" where
  "clip_upper hi c = (case c of None \<Rightarrow> None | Some v \<Rightarrow> if v > hi then Some hi else Some v)"

definition clip_lower :: "real \<Rightarrow> cell \<Rightarrow> cell" where
  "clip_lower lo c = (case c of None \<Rightarrow> None | Some v \<Rightarrow> if v < lo then Some lo else Some v)"

definition winsorize :: "cell list \<Rightarrow> cell list" where
  "winsorize xs =
     (case std xs of
        None \<Rightarrow> xs
      | Some sd \<Rightarrow>
          if sd > 0 then
            (case mean xs of
               None \<Rightarrow> xs
             | Some mu \<Rightarrow> map (clip_lower (mu - 3 * sd)) (map (clip_upper (mu + 3 * sd)) xs))
          else xs)"

text \<open>The acceleration block, entered when the trip has a \<^verbatim>\<open>speed_kmh\<close> column.\<close>

definition add_acceleration :: "string \<Rightarrow> frame \<Rightarrow> error + frame" where
  "add_acceleration time_col trip_df =
     (case column trip_df ''speed_kmh'' of
        None \<Rightarrow> Inr trip_df
      | Some speed_kmh \<Rightarrow>
          (let speed_ms = map (\<lambda>c. cdiv c (Some 3.6)) speed_kmh;
               trip_df = set_column ''speed_ms'' speed_ms trip_df;
               speed_diff = diff speed_ms;
               trip_df = set_column ''speed_diff'' speed_diff trip_df
           in case column trip_df time_col of
                None \<Rightarrow> Inl KeyError
              | Some time \<Rightarrow>
                  (let time_diff = diff time;
                       trip_df = set_column ''time_diff'' time_diff trip_df
                   in Inr (set_column ''acceleration_ms2''
                             (winsorize (guarded_rate speed_diff time_diff)) trip_df))))"

text \<open>
  The throttle block. The throttle column is \<^verbatim>\<open>throttle_pedal_%\<close>, or the first column
  with \<^verbatim>\<open>throttle\<close> in its lower-cased name. The block reads \<^verbatim>\<open>trip_df['time_diff']\<close>, which
  exists only if the acceleration block made it or the table came with it.
\<close>

definition throttle_column :: "frame \<Rightarrow> string option" where
  "throttle_column trip_df =
     (if column trip_df ''throttle_pedal_%'' \<noteq> None then Some ''throttle_pedal_%''
      else (case filter (\<lambda>col. contains ''throttle'' (lower col)) (map fst (cols trip_df)) of
              [] \<Rightarrow> None
            | col # _ \<Rightarrow> Some col))"

definition add_throttle_rate :: "frame \<Rightarrow> error + frame" where
  "add_throttle_rate trip_df =
     (case throttle_column trip_df of
        None \<Rightarrow> Inr trip_df
      | Some throttle_col \<Rightarrow>
          (case column trip_df throttle_col of
             None \<Rightarrow> Inl KeyError
           | Some throttle \<Rightarrow>
               (let throttle_change = diff throttle;
                    trip_df = set_column ''throttle_change'' throttle_change trip_df
                in case column trip_df ''time_diff'' of
                     None \<Rightarrow> Inl KeyError
                   | Some time_diff \<Rightarrow>
                       Inr (set_column ''throttle_change_rate''
                              (winsorize (guarded_rate throttle_change time_diff)) trip_df))))"

text \<open>The body of the loop for one trip, from the rows of the trip.\<close>

definition rate_of_change_trip :: "(cell list \<Rightarrow> nat list) \<Rightarrow> frame \<Rightarrow> error + frame" where
  "rate_of_change_trip order trip_df =
     (let time_col = time_column trip_df in
      if column trip_df time_col = None then Inr trip_df
      else
        (let trip_df = sort_values order time_col trip_df in
         case add_acceleration time_col trip_df of
           Inl e \<Rightarrow> Inl e
         | Inr trip_df \<Rightarrow> add_throttle_rate trip_df))"

section \<open>\<^verbatim>\<open>create_lagged_features\<close>\<close>

text \<open>\<^verbatim>\<open>str(n)\<close> in decimal, for the names of the lag and target columns.\<close>

function str_of_nat :: "nat \<Rightarrow> string" where
  "str_of_nat n =
     (if n < 10 then [char_of (48 + n)]
      else str_of_nat (n div 10) @ [char_of (48 + n mod 10)])"
  by pat_completeness auto
termination
  by (relation "measure id") auto

definition lag_col_name :: "string \<Rightarrow> nat \<Rightarrow> string" where
  "lag_col_name feature lag = feature @ ''_lag'' @ str_of_nat lag"

definition lag_periods :: "nat list" where
  "lag_periods = [1, 2, 3, 5, 10]"

text \<open>The features to lag, decided once on the whole table.\<close>

definition lag_features :: "frame \<Rightarrow> string list" where
  "lag_features df =
     (if column df ''powertrain_load_W'' \<noteq> None then [''powertrain_load_W''] else [])
     @ (if column df ''speed_kmh'' \<noteq> None then [''speed_kmh''] else [])
     @ (if column df ''acceleration_ms2'' \<noteq> None then [''acceleration_ms2''] else [])
     @ (if column df ''throttle_pedal_%'' \<noteq> None then [''throttle_pedal_%'']
        else (case filter (\<lambda>col. contains ''throttle'' (lower col) \<and> contains ''%'' col)
                     (map fst (cols df)) of
                [] \<Rightarrow> []
              | col # _ \<Rightarrow> [col]))"

text \<open>The lag columns of one feature: \<^verbatim>\<open>trip_df[name] = trip_df[feature].shift(lag)\<close> for
  every lag, when the trip has the feature.\<close>

definition add_lag :: "string \<Rightarrow> frame \<Rightarrow> nat \<Rightarrow> frame" where
  "add_lag feature trip_df lag =
     (case column trip_df feature of
        None \<Rightarrow> trip_df
      | Some c \<Rightarrow> set_column (lag_col_name feature lag) (shift_down lag c) trip_df)"

definition add_lags :: "frame \<Rightarrow> string \<Rightarrow> frame" where
  "add_lags trip_df feature =
     (if column trip_df feature \<noteq> None then foldl (add_lag feature) trip_df lag_periods
      else trip_df)"

text \<open>\<^verbatim>\<open>trip_df.bfill()\<close> fills every column.\<close>

definition bfill_frame :: "frame \<Rightarrow> frame" where
  "bfill_frame df = df\<lparr>cols := map (\<lambda>nc. (fst nc, bfill (snd nc))) (cols df)\<rparr>"

text \<open>The body of the loop for one trip.\<close>

definition lag_trip :: "(cell list \<Rightarrow> nat list) \<Rightarrow> string list \<Rightarrow> frame \<Rightarrow> error + frame" where
  "lag_trip order features trip_df =
     (let trip_df = sorted_trip order trip_df;
          trip_df = foldl add_lags trip_df features
      in Inr (bfill_frame trip_df))"

section \<open>\<^verbatim>\<open>create_target_variables\<close>\<close>

definition target_col_name :: "nat \<Rightarrow> string" where
  "target_col_name horizon = ''future_load_W_'' @ str_of_nat horizon @ ''s''"

text \<open>\<^verbatim>\<open>trip_df[target] = trip_df['powertrain_load_W'].shift(-horizon)\<close>\<close>

definition add_target :: "frame \<Rightarrow> nat \<Rightarrow> error + frame" where
  "add_target trip_df horizon =
     (case column trip_df ''powertrain_load_W'' of
        None \<Rightarrow> Inl KeyError
      | Some load \<Rightarrow> Inr (set_column (target_col_name horizon) (shift_up horizon load) trip_df))"

fun add_targets :: "frame \<Rightarrow> nat list \<Rightarrow> error + frame" where
  "add_targets trip_df [] = Inr trip_df"
| "add_targets trip_df (horizon # rest) =
     (case add_target trip_df horizon of
        Inl e \<Rightarrow> Inl e
      | Inr trip_df \<Rightarrow> add_targets trip_df rest)"

definition target_trip :: "(cell list \<Rightarrow> nat list) \<Rightarrow> nat list \<Rightarrow> frame \<Rightarrow> error + frame" where
  "target_trip order future_horizons trip_df =
     add_targets (sorted_trip order trip_df) future_horizons"

text \<open>
  \<^verbatim>\<open>result_df.dropna(subset=target_cols)\<close>: a row stays when none of the named columns is
  missing in it. A name that is not a column is a \<^verbatim>\<open>KeyError\<close>.
\<close>

definition row_complete :: "cell list list \<Rightarrow> nat \<Rightarrow> bool" where
  "row_complete cs i = list_all (\<lambda>c. c ! i \<noteq> None) cs"

fun columns_of :: "frame \<Rightarrow> string list \<Rightarrow> error + cell list list" where
  "columns_of df [] = Inr []"
| "columns_of df (name # names) =
     (case column df name of
        None \<Rightarrow> Inl KeyError
      | Some c \<Rightarrow> (case columns_of df names of Inl e \<Rightarrow> Inl e | Inr cs \<Rightarrow> Inr (c # cs)))"

definition dropna :: "string list \<Rightarrow> frame \<Rightarrow> error + frame" where
  "dropna names df =
     (case columns_of df names of
        Inl e \<Rightarrow> Inl e
      | Inr cs \<Rightarrow> Inr (mask_rows (map (row_complete cs) [0..<nrows df]) df))"

section \<open>The feature functions on tables in memory\<close>

text \<open>
  The functions take and return references to DataFrame objects, and a caller keeps its
  reference to the table it passed. The objects are the cells of a heap; \<^verbatim>\<open>df.copy()\<close>,
  a selection \<^verbatim>\<open>df[mask]\<close> and \<^verbatim>\<open>pd.concat\<close> make a new object, \<^verbatim>\<open>df[name] = c\<close> changes the
  object it is applied to. A function returns the heap it leaves and its result.
\<close>

type_synonym heap = "frame list"

definition alloc :: "frame \<Rightarrow> heap \<Rightarrow> nat \<times> heap" where
  "alloc f h = (length h, h @ [f])"

text \<open>\<^verbatim>\<open>Series.quantile(q)\<close>, linear interpolation between the sorted values that are not
  missing.\<close>

definition quantile :: "real \<Rightarrow> cell list \<Rightarrow> cell" where
  "quantile q cs =
     (let vs = sort (non_null cs); n = length vs in
      if n = 0 then None
      else
        (let pos = real (n - 1) * q; lo = nat \<lfloor>pos\<rfloor>; hi = min (lo + 1) (n - 1)
         in Some (vs ! lo + (vs ! hi - vs ! lo) * (pos - real lo))))"

subsection \<open>\<^verbatim>\<open>create_powertrain_load_feature\<close>\<close>

definition battery_column :: "string \<Rightarrow> string \<Rightarrow> frame \<Rightarrow> string option" where
  "battery_column exact word df =
     (if column df exact \<noteq> None then Some exact
      else (case filter (\<lambda>col. contains word (lower col) \<and> contains ''battery'' (lower col))
                   (map fst (cols df)) of
              [] \<Rightarrow> None
            | col # _ \<Rightarrow> Some col))"

text \<open>
  The load column is written into the table that was passed, \<^verbatim>\<open>df['powertrain_load_W'] = ...\<close>.
  When the sample trip \<^verbatim>\<open>'A01'\<close> has rows, the function plots the load over the time column
  of the trip, which is a \<^verbatim>\<open>KeyError\<close> when the trip has neither \<^verbatim>\<open>time_s\<close> nor
  \<^verbatim>\<open>timestamp\<close>, and returns the 90th percentile of the load of the whole table. Otherwise
  it returns nothing. The load column is written before the plot.
\<close>

definition create_powertrain_load_feature :: "nat \<Rightarrow> heap \<Rightarrow> heap \<times> (error + cell)" where
  "create_powertrain_load_feature df h =
     (case battery_column ''battery_voltage_V'' ''voltage'' (h ! df) of
        None \<Rightarrow> (h, Inr None)
      | Some voltage_col \<Rightarrow>
          (case battery_column ''battery_current_A'' ''current'' (h ! df) of
             None \<Rightarrow> (h, Inr None)
           | Some current_col \<Rightarrow>
               (case (column (h ! df) voltage_col, column (h ! df) current_col) of
                  (Some voltage, Some current) \<Rightarrow>
                    (let load = map2 cmul voltage current;
                         h = h[df := set_column ''powertrain_load_W'' load (h ! df)];
                         (sample_trip_df, h) = alloc (trip_rows ''A01'' (h ! df)) h
                     in if nrows (h ! sample_trip_df) \<noteq> 0 then
                          (if column (h ! sample_trip_df) (time_column (h ! sample_trip_df)) = None
                           then (h, Inl KeyError)
                           else (h, Inr (quantile 0.90 load)))
                        else (h, Inr None))
                | _ \<Rightarrow> (h, Inl KeyError))))"

subsection \<open>The loop over the trips\<close>

text \<open>
  The three functions below share their loop: for every trip identifier the rows of the
  trip are copied out of the working copy \<open>df_engineering\<close>, an empty selection is skipped,
  the body works on the copy, and the copy joins the processed tables. An exception of the
  body ends the function.
\<close>

fun per_trip :: "(frame \<Rightarrow> error + frame) \<Rightarrow> nat \<Rightarrow> string list \<Rightarrow> nat list \<Rightarrow> heap
                 \<Rightarrow> heap \<times> (error + nat list)" where
  "per_trip body df_engineering [] processed_dfs h = (h, Inr processed_dfs)"
| "per_trip body df_engineering (t # ts) processed_dfs h =
     (let (trip_df, h) = alloc (trip_rows t (h ! df_engineering)) h in
      if nrows (h ! trip_df) = 0 then per_trip body df_engineering ts processed_dfs h
      else
        (case body (h ! trip_df) of
           Inl e \<Rightarrow> (h, Inl e)
         | Inr f \<Rightarrow> per_trip body df_engineering ts (processed_dfs @ [trip_df]) (h[trip_df := f])))"

subsection \<open>\<^verbatim>\<open>create_rate_of_change_features\<close>\<close>

definition create_rate_of_change_features ::
  "(cell list \<Rightarrow> nat list) \<Rightarrow> nat \<Rightarrow> heap \<Rightarrow> heap \<times> (error + nat)" where
  "create_rate_of_change_features order df h =
     (let (df_engineering, h) = alloc (h ! df) h;
          trip_ids = unique (trip_id (h ! df_engineering))
      in case per_trip (rate_of_change_trip order) df_engineering trip_ids [] h of
           (h, Inl e) \<Rightarrow> (h, Inl e)
         | (h, Inr processed_dfs) \<Rightarrow>
             if processed_dfs \<noteq> [] then
               (let (result_df, h) = alloc (concat_frames (map (\<lambda>r. h ! r) processed_dfs)) h
                in (h, Inr result_df))
             else (h, Inr df))"

subsection \<open>\<^verbatim>\<open>create_lagged_features\<close>\<close>

definition create_lagged_features ::
  "(cell list \<Rightarrow> nat list) \<Rightarrow> nat \<Rightarrow> heap \<Rightarrow> heap \<times> (error + nat)" where
  "create_lagged_features order df h =
     (if nrows (h ! df) = 0 then (h, Inr df)
      else
        (let features = lag_features (h ! df) in
         if features = [] then (h, Inr df)
         else
           (let (df_engineering, h) = alloc (h ! df) h;
                trip_ids = unique (trip_id (h ! df_engineering))
            in case per_trip (lag_trip order features) df_engineering trip_ids [] h of
                 (h, Inl e) \<Rightarrow> (h, Inl e)
               | (h, Inr processed_dfs) \<Rightarrow>
                   if processed_dfs \<noteq> [] then
                     (let (result_df, h) = alloc (concat_frames (map (\<lambda>r. h ! r) processed_dfs)) h
                      in (h, Inr result_df))
                   else (h, Inr df))))"

subsection \<open>\<^verbatim>\<open>create_target_variables\<close>\<close>

definition create_target_variables ::
  "(cell list \<Rightarrow> nat list) \<Rightarrow> nat \<Rightarrow> nat list \<Rightarrow> heap \<Rightarrow> heap \<times> (error + nat)" where
  "create_target_variables order df future_horizons h =
     (if nrows (h ! df) = 0 \<or> column (h ! df) ''powertrain_load_W'' = None then (h, Inr df)
      else
        (let (df_model, h) = alloc (h ! df) h;
             trip_ids = unique (trip_id (h ! df_model))
         in if trip_ids = [] then (h, Inr df)
            else
              (case per_trip (target_trip order future_horizons) df_model trip_ids [] h of
                 (h, Inl e) \<Rightarrow> (h, Inl e)
               | (h, Inr processed_dfs) \<Rightarrow>
                   if processed_dfs \<noteq> [] then
                     (let (result_df, h) = alloc (concat_frames (map (\<lambda>r. h ! r) processed_dfs)) h
                      in case dropna (map target_col_name future_horizons) (h ! result_df) of
                           Inl e \<Rightarrow> (h, Inl e)
                         | Inr dropped \<Rightarrow>
                             (let (result_df, h) = alloc dropped h in (h, Inr result_df)))
                   else (h, Inr df))))"

section \<open>Properties of the control policy\<close>

text \<open>
  C1. Whenever the model predicts a load \<open>p\<close> for the row, with threshold \<open>t\<close> and baseline
  heater power \<open>b\<close>: if \<open>p > t\<close> the result is the power \<open>b * 0.85\<close> with the reducing status,
  otherwise the power \<open>b\<close> with the maintaining status; at \<open>p = t\<close> the baseline is kept.
\<close>

theorem run_intelli_therm_decision:
  assumes "model (prepare_features_for_prediction vehicle_data feature_list) = Inr p"
    and "base_heater_power vehicle_data = Some b"
  shows "run_intelli_therm vehicle_data model t feature_list =
           (if p > t then Inr (Some (b * 0.85), status_reduce, p)
            else Inr (Some b, status_maintain, p))
         \<and> (p = t \<longrightarrow>
              run_intelli_therm vehicle_data model t feature_list = Inr (Some b, status_maintain, p))"
  using assms by (simp add: run_intelli_therm_def cmul_def)

theorem run_intelli_therm_decision_witness:
  "run_intelli_therm [(''heater_power_W'', Some 1000)] (\<lambda>_. Inr 100) 90 []
     = Inr (Some 850, status_reduce, 100)
   \<and> run_intelli_therm [(''heater_power_W'', Some 1000)] (\<lambda>_. Inr 50) 90 []
     = Inr (Some 1000, status_maintain, 50)
   \<and> run_intelli_therm [(''heater_power_W'', Some 1000)] (\<lambda>_. Inr 90) 90 []
     = Inr (Some 1000, status_maintain, 90)"
proof -
  have b: "base_heater_power [(''heater_power_W'', Some 1000)] = Some 1000"
    by (simp add: base_heater_power_def)
  show ?thesis
    using run_intelli_therm_decision [of "\<lambda>_. Inr 100" "[(''heater_power_W'', Some 1000)]" "[]" 100 1000 90, OF refl b]
      run_intelli_therm_decision [of "\<lambda>_. Inr 50" "[(''heater_power_W'', Some 1000)]" "[]" 50 1000 90, OF refl b]
      run_intelli_therm_decision [of "\<lambda>_. Inr 90" "[(''heater_power_W'', Some 1000)]" "[]" 90 1000 90, OF refl b]
    by simp
qed

text \<open>
  C10. When the row has no \<^verbatim>\<open>heater_power_W\<close> label, the baseline is 1000 W: the call
  returns 850 W when the predicted load exceeds the threshold and 1000 W otherwise, and it
  returns whenever the model's prediction does.
\<close>

theorem run_intelli_therm_default_heater:
  assumes "map_of vehicle_data ''heater_power_W'' = None"
    and "model (prepare_features_for_prediction vehicle_data feature_list) = Inr p"
  shows "base_heater_power vehicle_data = Some 1000
         \<and> run_intelli_therm vehicle_data model t feature_list =
             (if p > t then Inr (Some 850, status_reduce, p)
              else Inr (Some 1000, status_maintain, p))"
  using assms by (simp add: run_intelli_therm_def base_heater_power_def cmul_def)

theorem run_intelli_therm_default_heater_witness:
  "run_intelli_therm [(''speed_kmh'', Some 50)] (\<lambda>_. Inr 100) 90 [''heater_power_W'']
     = Inr (Some 850, status_reduce, 100)
   \<and> run_intelli_therm [(''speed_kmh'', Some 50)] (\<lambda>_. Inr 50) 90 [''heater_power_W'']
     = Inr (Some 1000, status_maintain, 50)"
proof -
  have h: "map_of [(''speed_kmh'', Some (50::real))] ''heater_power_W'' = None"
    by simp
  show ?thesis
    using run_intelli_therm_default_heater [of "[(''speed_kmh'', Some 50)]" "\<lambda>_. Inr 100" "[''heater_power_W'']" 100 90, OF h refl]
      run_intelli_therm_default_heater [of "[(''speed_kmh'', Some 50)]" "\<lambda>_. Inr 50" "[''heater_power_W'']" 50 90, OF h refl]
    by simp
qed

text \<open>
  C8. A trained feature that is absent from the row and whose name has no \<^verbatim>\<open>_lag\<close> in it is
  given the value zero. A trained lag feature whose base feature is absent too is given no
  value at all: the prepared frame lacks that column, and its names differ from the
  training feature list.
\<close>

theorem prepare_features_missing_lag_base:
  "prepare_features_for_prediction [(''speed_kmh'', Some 50)]
       [''speed_kmh'', ''heater_power_W'', ''powertrain_load_W_lag1'']
     = [(''speed_kmh'', Some 50), (''heater_power_W'', Some 0)]
   \<and> map fst (prepare_features_for_prediction [(''speed_kmh'', Some 50)]
       [''speed_kmh'', ''heater_power_W'', ''powertrain_load_W_lag1''])
     \<noteq> [''speed_kmh'', ''heater_power_W'', ''powertrain_load_W_lag1'']"
  by (simp add: prepare_features_for_prediction_def prepare_feature_def)

section \<open>The trip split: rounding of the split index\<close>

declare bit_length.simps [simp del]

lemma bit_length_lower: "0 < m \<Longrightarrow> 2 ^ (bit_length m - 1) \<le> m"
proof (induction m rule: bit_length.induct)
  case (1 n)
  show ?case
  proof (cases "n div 2 \<le> 0")
    case True
    with 1(2) have "n = 1" by linarith
    then show ?thesis by (simp add: bit_length.simps [of 1] bit_length.simps [of 0])
  next
    case False
    then have h: "2 ^ (bit_length (n div 2) - 1) \<le> n div 2" using 1 by simp
    have pos: "0 < bit_length (n div 2)" using False by (simp add: bit_length.simps [of "n div 2"])
    have "bit_length n = Suc (bit_length (n div 2))" using 1(2) by (simp add: bit_length.simps [of n])
    then have "(2::int) ^ (bit_length n - 1) = 2 * 2 ^ (bit_length (n div 2) - 1)"
      using pos by (cases "bit_length (n div 2)") simp_all
    then show ?thesis using h by linarith
  qed
qed

lemma bit_length_upper: "0 \<le> m \<Longrightarrow> m < 2 ^ bit_length m"
proof (induction m rule: bit_length.induct)
  case (1 n)
  show ?case
  proof (cases "n \<le> 0")
    case True
    then show ?thesis using 1(2) by (simp add: bit_length.simps [of n])
  next
    case False
    then have h: "n div 2 < 2 ^ bit_length (n div 2)" using 1 by simp
    have "bit_length n = Suc (bit_length (n div 2))" using False by (simp add: bit_length.simps [of n])
    then show ?thesis using h by simp
  qed
qed

lemma round_to_double_error:
  assumes "0 \<le> m"
  shows "\<bar>round_to_double m - m\<bar> * 2 ^ 53 \<le> m"
proof (cases "bit_length m \<le> 53")
  case True
  then have "round_to_double m = m" by (simp add: round_to_double_def)
  then show ?thesis using assms by simp
next
  case False
  define s where "s = bit_length m - 53"
  define q where "q = m div 2 ^ s"
  define r where "r = m mod 2 ^ s"
  have m: "m = q * 2 ^ s + r" unfolding q_def r_def by (rule div_mult_mod_eq [symmetric])
  have r: "0 \<le> r" "r < 2 ^ s" by (simp_all add: r_def)
  have "0 < m" using False assms by (cases "m = 0") (simp_all add: bit_length.simps [of 0])
  then have "2 ^ (bit_length m - 1) \<le> m" by (rule bit_length_lower)
  moreover have "bit_length m - 1 = s + 52" using False by (simp add: s_def)
  ultimately have big: "2 ^ s * 2 ^ 52 \<le> m" by (simp add: power_add)
  define P where "P = q * 2 ^ s"
  define T where "T = (2::int) ^ s"
  have R: "round_to_double m = (if 2 * r > T \<or> (2 * r = T \<and> odd q) then P + T else P)"
    by (simp add: round_to_double_def s_def q_def r_def P_def T_def Let_def algebra_simps)
  have m': "m = P + r" using m by (simp add: P_def)
  have "\<bar>round_to_double m - m\<bar> * 2 \<le> T"
    using r R m' unfolding T_def [symmetric] by (auto split: if_splits)
  then have "\<bar>round_to_double m - m\<bar> * 2 \<le> 2 ^ s" by (simp add: T_def)
  then have "\<bar>round_to_double m - m\<bar> * 2 * 2 ^ 52 \<le> 2 ^ s * 2 ^ 52"
    by (rule mult_right_mono) simp
  then show ?thesis using big by simp
qed

lemma round_to_double_small: "0 \<le> n \<Longrightarrow> n < 2 ^ 53 \<Longrightarrow> round_to_double n = n"
proof -
  assume a: "0 \<le> n" "n < 2 ^ 53"
  have "bit_length n \<le> 53"
  proof (rule ccontr)
    assume "\<not> bit_length n \<le> 53"
    then have "54 \<le> bit_length n" by simp
    moreover have "0 < n" using \<open>\<not> bit_length n \<le> 53\<close> a by (cases "n = 0") (simp_all add: bit_length.simps [of 0])
    then have "2 ^ (bit_length n - 1) \<le> n" by (rule bit_length_lower)
    moreover have "(2::int) ^ 53 \<le> 2 ^ (bit_length n - 1)" using \<open>54 \<le> bit_length n\<close>
      by (intro power_increasing) simp_all
    ultimately show False using a by linarith
  qed
  then show ?thesis by (simp add: round_to_double_def)
qed

lemma int_times_0_7_bounds:
  assumes "0 \<le> n" "n < 2 ^ 50"
  shows "int_times_0_7 n \<le> (7 * n) div 10" and "(7 * n) div 10 - 1 \<le> int_times_0_7 n"
proof -
  define m where "m = n * 3152519739159347"
  define R where "R = round_to_double m"
  have n53: "n < 2 ^ 53" using assms by simp
  have rn: "round_to_double n = n" using assms(1) n53 by (rule round_to_double_small)
  have m0: "0 \<le> m" using assms by (simp add: m_def)
  have e: "\<bar>R - m\<bar> * 2 ^ 53 \<le> m" unfolding R_def using m0 by (rule round_to_double_error)
  have v: "int_times_0_7 n = R div 2 ^ 52" by (simp add: int_times_0_7_def rn R_def m_def)
  define k where "k = (7 * n) div 10"
  have k: "10 * k \<le> 7 * n" "7 * n < 10 * k + 10" unfolding k_def by linarith+
  have n': "n < 1125899906842624" using assms by simp
  have "(R - m) * 2 ^ 53 \<le> \<bar>R - m\<bar> * 2 ^ 53" "(m - R) * 2 ^ 53 \<le> \<bar>R - m\<bar> * 2 ^ 53"
    by (rule mult_right_mono; simp)+
  then have e1: "(R - m) * 9007199254740992 \<le> m" "(m - R) * 9007199254740992 \<le> m"
    using e by simp_all
  have e2: "R * 9007199254740992 \<le> n * 28395373445112339944606040011571"
     "n * 28395373445112333639566561692877 \<le> R * 9007199254740992"
    using e1 unfolding m_def by (simp_all add: algebra_simps)
  have up: "R < (k + 1) * 4503599627370496"
  proof (rule ccontr)
    assume "\<not> R < (k + 1) * 4503599627370496"
    then have a: "k * 40564819207303340847894502572032 + 40564819207303340847894502572032 \<le> R * 9007199254740992"
      by simp
    have c: "10 * (k * 40564819207303340847894502572032) + 405648192073033408478945025720320 \<le> 10 * (n * 28395373445112339944606040011571)"
      using a e2(1) by simp
    have b: "7 * (n * 40564819207303340847894502572032) + 40564819207303340847894502572032 \<le> 10 * (k * 40564819207303340847894502572032) + 405648192073033408478945025720320"
      using k(2) by simp
    have d: "40564819207303340847894502572032 \<le> n * 13510798882111486"
      using b c by simp
    have "n * 13510798882111486 \<le> 1125899906842624 * 13510798882111486"
      using n' by simp
    then show False using d by simp
  qed
  have lo: "(k - 1) * 4503599627370496 \<le> R"
  proof (rule ccontr)
    assume "\<not> (k - 1) * 4503599627370496 \<le> R"
    then have a: "R * 9007199254740992 \<le> k * 40564819207303340847894502572032 - 40564819207303340847894502572032"
      by simp
    have c: "10 * (n * 28395373445112333639566561692877) \<le> 10 * (k * 40564819207303340847894502572032) - 405648192073033408478945025720320"
      using a e2(2) by simp
    have b: "10 * (k * 40564819207303340847894502572032) \<le> 7 * (n * 40564819207303340847894502572032)"
      using k(1) by simp
    have d: "405648192073033408478945025720320 \<le> n * 49539595901075454"
      using b c by simp
    have "n * 49539595901075454 \<le> 1125899906842624 * 49539595901075454"
      using n' by simp
    then show False using d by simp
  qed
  define D where "D = R div 4503599627370496"
  have "D * 4503599627370496 + R mod 4503599627370496 = R"
    unfolding D_def by (rule div_mult_mod_eq)
  moreover have "0 \<le> R mod 4503599627370496" "R mod 4503599627370496 < 4503599627370496"
    by simp_all
  ultimately have D: "D * 4503599627370496 \<le> R" "R < (D + 1) * 4503599627370496"
    by (simp_all add: algebra_simps)
  have "D * 4503599627370496 < (k + 1) * 4503599627370496"
    using D(1) up by (rule le_less_trans)
  then have "D < k + 1" by simp
  then show "int_times_0_7 n \<le> (7 * n) div 10"
    by (simp add: v D_def k_def)
  have "(k - 1) * 4503599627370496 < (D + 1) * 4503599627370496"
    using lo D(2) by (rule le_less_trans)
  then have "k - 1 < D + 1" by simp
  then show "(7 * n) div 10 - 1 \<le> int_times_0_7 n"
    by (simp add: v D_def k_def)
qed

lemma round_to_double_nonneg:
  assumes "0 \<le> m"
  shows "0 \<le> round_to_double m"
proof -
  have "(m - round_to_double m) * 2 ^ 53 \<le> \<bar>round_to_double m - m\<bar> * 2 ^ 53"
    by (rule mult_right_mono) simp_all
  also have "\<dots> \<le> m" using assms by (rule round_to_double_error)
  finally have "m * 9007199254740991 \<le> round_to_double m * 9007199254740992"
    by (simp add: algebra_simps)
  moreover have "0 \<le> m * 9007199254740991" using assms by simp
  ultimately show ?thesis by simp
qed

lemma round_to_double_upper:
  assumes "0 \<le> m"
  shows "round_to_double m * 9007199254740992 \<le> m * 9007199254740993"
proof -
  have "(round_to_double m - m) * 2 ^ 53 \<le> \<bar>round_to_double m - m\<bar> * 2 ^ 53"
    by (rule mult_right_mono) simp_all
  also have "\<dots> \<le> m" using assms by (rule round_to_double_error)
  finally show ?thesis by (simp add: algebra_simps)
qed

lemma int_times_0_7_range:
  assumes "0 \<le> n"
  shows "0 \<le> int_times_0_7 n" and "int_times_0_7 n \<le> n"
proof -
  define N where "N = round_to_double n"
  define R where "R = round_to_double (N * 3152519739159347)"
  have N0: "0 \<le> N" unfolding N_def using assms by (rule round_to_double_nonneg)
  then have m0: "0 \<le> N * 3152519739159347" by simp
  have R0: "0 \<le> R" unfolding R_def using m0 by (rule round_to_double_nonneg)
  have v: "int_times_0_7 n = R div 4503599627370496"
    by (simp add: int_times_0_7_def R_def N_def)
  show "0 \<le> int_times_0_7 n" using R0 by (simp add: v pos_imp_zdiv_nonneg_iff)
  have N: "N * 9007199254740992 \<le> n * 9007199254740993"
    unfolding N_def using assms by (rule round_to_double_upper)
  have "R * 9007199254740992 \<le> N * 3152519739159347 * 9007199254740993"
    unfolding R_def using m0 by (rule round_to_double_upper)
  then have "R * 9007199254740992 * 9007199254740992 \<le> N * 3152519739159347 * 9007199254740993 * 9007199254740992"
    by (rule mult_right_mono) simp
  then have a: "R * 81129638414606681695789005144064 \<le> N * 9007199254740992 * 28395373445112339944606040011571"
    by simp
  have "N * 9007199254740992 * 28395373445112339944606040011571 \<le> n * 9007199254740993 * 28395373445112339944606040011571"
    using N by (rule mult_right_mono) simp
  then have b: "R * 81129638414606681695789005144064 \<le> n * 255762786532908051250464053028689925974328030003"
    using a by simp
  have "n * 255762786532908051250464053028689925974328030003 \<le> n * 365375409332725729550921208179070754913983135744"
    using assms by (intro mult_left_mono) simp_all
  then have "R * 81129638414606681695789005144064 \<le> n * 4503599627370496 * 81129638414606681695789005144064"
    using b by simp
  then have "R \<le> n * 4503599627370496"
    by simp
  then have "R div 4503599627370496 \<le> n * 4503599627370496 div 4503599627370496"
    by (rule zdiv_mono1) simp
  then show "int_times_0_7 n \<le> n" by (simp add: v)
qed

lemma set_unique: "set (unique xs) = set xs"
  by (induction xs rule: unique.induct) auto

lemma distinct_unique: "distinct (unique xs)"
  by (induction xs rule: unique.induct) (auto simp: set_unique)

lemma split_idx_range:
  assumes "2 \<le> n"
  shows "1 \<le> split_idx n" and "split_idx n \<le> n"
proof -
  have "int_times_0_7 (int n) \<le> int n" by (rule int_times_0_7_range) simp
  then show "split_idx n \<le> n" using assms by (simp add: split_idx_def)
  show "1 \<le> split_idx n" by (simp add: split_idx_def)
qed

lemma split_idx_floor:
  assumes "2 \<le> n" "n < 2 ^ 50"
  shows "split_idx n \<le> (7 * n) div 10" and "(7 * n) div 10 - 1 \<le> split_idx n"
proof -
  have n: "0 \<le> int n" "int n < 2 ^ 50" using assms(2) by simp_all
  have u: "int_times_0_7 (int n) \<le> (7 * int n) div 10"
    and l: "(7 * int n) div 10 - 1 \<le> int_times_0_7 (int n)"
    using int_times_0_7_bounds [OF n] by simp_all
  have d: "(7 * int n) div 10 = int ((7 * n) div 10)"
    by (simp add: zdiv_int)
  have one: "1 \<le> (7 * n) div 10" using assms(1) by linarith
  show "split_idx n \<le> (7 * n) div 10"
    using u one unfolding d by (simp add: split_idx_def)
  show "(7 * n) div 10 - 1 \<le> split_idx n"
    using l unfolding d by (simp add: split_idx_def)
qed

text \<open>
  C3 (as the code has it). With at least two distinct trip identifiers, the sorted
  identifiers are cut at \<open>split_idx n = max 1 (int (n * 0.7))\<close>: the first \<open>split_idx n\<close> go to
  the train set and the others to the test set, the two sets are disjoint and their union is
  the set of valid identifiers. The index is at least 1 and truncated, never rounded up: for
  fewer than \<open>2 ^ 50\<close> trips it is \<open>\<lfloor>0.7 * n\<rfloor>\<close> or one less.
\<close>

theorem split_trip_ids_partition:
  assumes "2 \<le> length (unique ids)"
  shows "split_trip_ids ids =
           (take (split_idx (length (unique ids))) (sort (unique ids)),
            drop (split_idx (length (unique ids))) (sort (unique ids)))
         \<and> length (fst (split_trip_ids ids)) = split_idx (length (unique ids))
         \<and> 1 \<le> length (fst (split_trip_ids ids))
         \<and> length (fst (split_trip_ids ids)) + length (snd (split_trip_ids ids)) = length (unique ids)
         \<and> set (fst (split_trip_ids ids)) \<inter> set (snd (split_trip_ids ids)) = {}
         \<and> set (fst (split_trip_ids ids)) \<union> set (snd (split_trip_ids ids)) = set ids
         \<and> (length (unique ids) < 2 ^ 50 \<longrightarrow>
              length (fst (split_trip_ids ids)) \<le> (7 * length (unique ids)) div 10
              \<and> (7 * length (unique ids)) div 10 - 1 \<le> length (fst (split_trip_ids ids)))"
proof -
  define n where "n = length (unique ids)"
  define k where "k = split_idx n"
  define s where "s = sort (unique ids)"
  have eq: "split_trip_ids ids = (take k s, drop k s)"
    using assms by (simp add: split_trip_ids_def Let_def k_def s_def n_def)
  have kr: "1 \<le> k" "k \<le> n"
    unfolding k_def using assms split_idx_range [of n] by (simp_all add: n_def)
  have len: "length s = n" by (simp add: s_def n_def)
  have ds: "distinct s" by (simp add: s_def distinct_unique)
  have ss: "set s = set ids" by (simp add: s_def set_unique)
  have l1: "length (take k s) = k" using kr len by simp
  have dj: "set (take k s) \<inter> set (drop k s) = {}"
    using ds by (rule set_take_disj_set_drop_if_distinct) simp
  have un: "set (take k s) \<union> set (drop k s) = set ids"
    using set_append [of "take k s" "drop k s"] ss by simp
  have fl: "n < 2 ^ 50 \<longrightarrow> k \<le> (7 * n) div 10 \<and> (7 * n) div 10 - 1 \<le> k"
    unfolding k_def using assms split_idx_floor [of n] by (simp add: n_def)
  show ?thesis
    unfolding eq fst_conv snd_conv n_def [symmetric] k_def [symmetric] s_def [symmetric]
    using kr l1 dj un fl len by simp
qed

lemma int_times_0_7_values:
  "int_times_0_7 2 = 1" "int_times_0_7 3 = 2" "int_times_0_7 90 = 62"
  by code_simp+

theorem split_trip_ids_partition_witness:
  "split_trip_ids [''B30'', ''A01'', ''B30'', ''A02''] = ([''A01'', ''A02''], [''B30''])
   \<and> (7 * length (unique [''B30'', ''A01'', ''B30'', ''A02''])) div 10 = 2"
proof -
  have u: "unique [''B30'', ''A01'', ''B30'', ''A02''] = [''B30'', ''A01'', ''A02'']"
    by simp
  have "split_idx 3 = 2"
    using int_times_0_7_values(2) by (simp add: split_idx_def)
  then have k: "split_idx (Suc (Suc (Suc 0))) = 2"
    by (simp add: numeral_3_eq_3)
  have s: "sort [''B30'', ''A01'', ''A02''] = [''A01'', ''A02'', ''B30'']"
    by simp
  show ?thesis
    using split_trip_ids_partition [of "[''B30'', ''A01'', ''B30'', ''A02'']"]
    unfolding u by (simp add: k s)
qed

text \<open>
  C3 as the specification words it, with the split rounded up, fails already for two trips: one
  trip is used for training, not \<open>\<lceil>0.7 * 2\<rceil> = 2\<close>; and for ninety trips the index is 62.
\<close>

theorem split_trip_ids_not_ceiling:
  "length (fst (split_trip_ids [''A01'', ''B30''])) = 1
   \<and> length (fst (split_trip_ids [''A01'', ''B30''])) \<noteq> nat \<lceil>0.7 * real (length (unique [''A01'', ''B30'']))\<rceil>"
proof -
  have "split_idx 2 = 1"
    using int_times_0_7_values(1) by (simp add: split_idx_def)
  then have k: "split_idx (Suc (Suc 0)) = 1"
    by (simp add: numeral_2_eq_2)
  have c: "\<lceil>7 / 5 :: real\<rceil> = 2"
    by (rule ceiling_unique) simp_all
  show ?thesis
    by (simp add: split_trip_ids_def Let_def k c)
qed

section \<open>The simulated trip: energy of the optimized run\<close>

lemma length_select_rows:
  "length xs = length ys \<Longrightarrow> length (select_rows keep xs) = length (select_rows keep ys)"
proof (induction keep arbitrary: xs ys)
  case Nil
  then show ?case by (simp add: select_rows_def)
next
  case (Cons k ks)
  show ?case
  proof (cases xs)
    case Nil
    with Cons.prems show ?thesis by (simp add: select_rows_def)
  next
    case xs: (Cons x xs')
    then obtain y ys' where ys: "ys = y # ys'" and l: "length xs' = length ys'"
      using Cons.prems by (cases ys) auto
    show ?thesis
      using Cons.IH [OF l] by (simp add: xs ys select_rows_def)
  qed
qed

lemma set_select_rows: "set (select_rows keep xs) \<subseteq> set xs"
  by (auto simp: select_rows_def dest: set_zip_rightD)

lemma map_of_map_snd:
  "map_of (map (\<lambda>nc. (fst nc, f (snd nc))) al) k = map_option f (map_of al k)"
  by (induction al) auto

lemma column_mask_rows:
  "column (mask_rows keep df) name = map_option (select_rows keep) (column df name)"
  by (simp add: column_def mask_rows_def map_of_map_snd)

lemma rectangular_mask_rows:
  assumes "rectangular df"
  shows "rectangular (mask_rows keep df)"
proof -
  have "length (select_rows keep c) = length (select_rows keep (trip_id df))"
    if "length c = length (trip_id df)" for c :: "cell list"
    using that by (rule length_select_rows)
  then show ?thesis
    using assms by (auto simp: rectangular_def mask_rows_def nrows_def list_all_iff)
qed

lemma column_length:
  assumes "rectangular df" and "column df name = Some c"
  shows "length c = nrows df"
proof -
  have "(name, c) \<in> set (cols df)"
    using assms(2) unfolding column_def by (rule map_of_SomeD)
  then show ?thesis
    using assms(1) by (force simp: rectangular_def list_all_iff)
qed

lemma rectangular_with_heater:
  assumes "rectangular df"
  shows "rectangular (with_heater df)"
proof -
  have "set (AList.update k v al) \<subseteq> insert (k, v) (set al)" for k :: string and v :: "cell list" and al
    by (induction al) auto
  then show ?thesis
    using assms by (fastforce simp: rectangular_def with_heater_def set_column_def nrows_def list_all_iff)
qed

lemma nrows_with_heater: "nrows (with_heater df) = nrows df"
  by (simp add: with_heater_def set_column_def nrows_def)

lemma column_with_heater:
  "column (with_heater df) name =
     (if name = ''heater_power_W'' \<and> column df ''heater_power_W'' = None
      then Some (replicate (nrows df) (Some 2000)) else column df name)"
  by (simp add: with_heater_def set_column_def column_def update_conv')

lemma trip_time_diff_with_heater: "trip_time_diff (with_heater df) = trip_time_diff df"
  by (simp add: trip_time_diff_def column_with_heater nrows_with_heater split: option.splits)

text \<open>The baseline power that \<^verbatim>\<open>run_intelli_therm\<close> reads in row \<open>i\<close> is the heater column's cell.\<close>

lemma base_heater_power_row_at:
  assumes "column df ''heater_power_W'' = Some hc"
  shows "base_heater_power (row_at df i) = hc ! i"
proof -
  have "map_of (row_at df i) ''heater_power_W'' = map_option (\<lambda>c. c ! i) (map_of (cols df) ''heater_power_W'')"
    unfolding row_at_def by (rule map_of_map_snd)
  then show ?thesis using assms by (simp add: base_heater_power_def column_def)
qed

lemma base_heater_power_iterrows:
  assumes "rectangular df" and "column df ''heater_power_W'' = Some hc"
  shows "map base_heater_power (iterrows df) = hc"
proof -
  have "length hc = nrows df" using assms by (rule column_length)
  moreover have "map (\<lambda>i. hc ! i) [0..<length hc] = hc" by (rule map_nth)
  ultimately have "map (\<lambda>i. hc ! i) [0..<nrows df] = hc" by simp
  then show ?thesis
    using assms(2) by (simp add: iterrows_def base_heater_power_row_at comp_def)
qed

text \<open>Every power the loop returns is the row's baseline power, or 0.85 times it.\<close>

lemma run_rows_powers:
  "run_rows rs model t fl = Inr results \<Longrightarrow>
   list_all2 (\<lambda>p h. p = h \<or> p = cmul h (Some 0.85)) (map fst results) (map base_heater_power rs)"
proof (induction rs arbitrary: results)
  case Nil
  then show ?case by simp
next
  case (Cons r rs)
  from Cons.prems obtain x xs where
    x: "run_intelli_therm r model t fl = Inr x" and xs: "run_rows rs model t fl = Inr xs"
    and res: "results = x # xs"
    by (auto split: sum.splits)
  have "fst x = base_heater_power r \<or> fst x = cmul (base_heater_power r) (Some 0.85)"
    using x by (auto simp: run_intelli_therm_def Let_def split: sum.splits if_splits)
  then show ?case using Cons.IH [OF xs] by (simp add: res)
qed

lemma cell_energy_le:
  assumes "p = h \<or> p = cmul h (Some 0.85)"
    and "\<forall>v. h = Some v \<longrightarrow> 0 \<le> v" and "\<forall>x. d = Some x \<longrightarrow> 0 \<le> x"
  shows "(case cmul p d of None \<Rightarrow> 0 | Some v \<Rightarrow> v) \<le> (case cmul h d of None \<Rightarrow> (0::real) | Some v \<Rightarrow> v)"
proof (cases h)
  case None
  then show ?thesis using assms(1) by (auto simp: cmul_def)
next
  case (Some v)
  show ?thesis
  proof (cases d)
    case None
    then show ?thesis using assms(1) by (auto simp: cmul_def split: option.splits)
  next
    case d: (Some x)
    have "0 \<le> v" "0 \<le> x" using assms(2,3) Some d by simp_all
    then have "0 \<le> v * x" by simp
    then show ?thesis using assms(1) by (auto simp: cmul_def Some d)
  qed
qed

lemma heater_energy_mono:
  assumes "list_all2 (\<lambda>p h. p = h \<or> p = cmul h (Some 0.85)) ps hs"
    and "\<forall>v. Some v \<in> set hs \<longrightarrow> 0 \<le> v" and "\<forall>x. Some x \<in> set td \<longrightarrow> 0 \<le> x"
  shows "heater_energy ps td \<le> heater_energy hs td"
  using assms
proof (induction ps hs arbitrary: td rule: list_all2_induct)
  case Nil
  then show ?case by (simp add: heater_energy_def sum_skipna_def)
next
  case (Cons p ps h hs)
  show ?case
  proof (cases td)
    case Nil
    then show ?thesis by (simp add: heater_energy_def sum_skipna_def)
  next
    case td: (Cons d ds)
    have "heater_energy ps ds \<le> heater_energy hs ds"
      using Cons.IH [of ds] Cons.prems by (simp add: td)
    moreover have "(case cmul p d of None \<Rightarrow> 0 | Some v \<Rightarrow> v) \<le> (case cmul h d of None \<Rightarrow> (0::real) | Some v \<Rightarrow> v)"
      using Cons.hyps(1) Cons.prems by (intro cell_energy_le) (simp_all add: td)
    ultimately show ?thesis
      by (simp add: heater_energy_def sum_skipna_def td)
  qed
qed

text \<open>Non-decreasing timestamps give time differences that are not negative.\<close>

lemma diff_map_Some:
  "diff (map Some (t # r)) = None # map (\<lambda>ab. Some (snd ab - fst ab)) (zip (t # r) r)"
proof -
  have "map2 (\<lambda>prev cur. csub cur prev) (map Some xs) (map Some ys)
          = map (\<lambda>ab. Some (snd ab - fst ab)) (zip xs ys)" for xs ys :: "real list"
    by (induction xs ys rule: list_induct2') (simp_all add: csub_def)
  from this [of "t # r" r] show ?thesis by (simp add: diff_def)
qed

lemma diff_sorted_nonneg:
  assumes "sorted ts" and "Some d \<in> set (map (fillna 0) (diff (map Some ts)))"
  shows "0 \<le> d"
proof (cases ts)
  case Nil
  with assms(2) show ?thesis by (simp add: diff_def)
next
  case (Cons t r)
  from assms(2) have "d = 0 \<or> (\<exists>ab \<in> set (zip ts r). d = snd ab - fst ab)"
    unfolding Cons diff_map_Some by (auto simp: fillna_def)
  then show ?thesis
  proof
    assume "d = 0"
    then show ?thesis by simp
  next
    assume "\<exists>ab \<in> set (zip ts r). d = snd ab - fst ab"
    then obtain a b where ab: "(a, b) \<in> set (zip ts r)" and d: "d = b - a"
      by auto
    from ab obtain i where i: "i < length r" "a = ts ! i" "b = r ! i"
      by (auto simp: in_set_zip)
    have "ts ! i \<le> ts ! Suc i"
      using assms(1) i(1) by (intro sorted_nth_mono) (simp_all add: Cons)
    then show ?thesis using d i by (simp add: Cons)
  qed
qed

text \<open>
  C2 (as the code has it). For a replayed trip whose own heater readings are not negative
  and whose time differences, as the simulator computes them, are not negative, the total
  optimized heater energy is at most the total baseline heater energy, whatever the model
  predicts and whatever the other trips of the table hold.
\<close>

theorem optimized_energy_le_baseline:
  assumes "rectangular df"
    and "trip_energies df model high_power_threshold feature_list test_trip_ids
           = Inr (Some (baseline_energy, optimized_energy))"
    and "\<forall>hc v. column (test_trip df test_trip_ids) ''heater_power_W'' = Some hc \<longrightarrow>
           Some v \<in> set hc \<longrightarrow> 0 \<le> v"
    and "\<forall>d. Some d \<in> set (trip_time_diff (test_trip df test_trip_ids)) \<longrightarrow> 0 \<le> d"
  shows "optimized_energy \<le> baseline_energy"
proof -
  define t where "t = with_heater (test_trip df test_trip_ids)"
  from assms(2) obtain results hc where
    run: "run_rows (iterrows t) model high_power_threshold feature_list = Inr results"
    and hc: "column t ''heater_power_W'' = Some hc"
    and b: "baseline_energy = heater_energy hc (trip_time_diff t)"
    and opt: "optimized_energy = heater_energy (map fst results) (trip_time_diff t)"
    by (auto simp: trip_energies_def Let_def t_def split: if_splits sum.splits option.splits)
  have rt: "rectangular t"
    unfolding t_def test_trip_def trip_rows_def Let_def
    using assms(1) by (intro rectangular_with_heater rectangular_mask_rows)
  have "list_all2 (\<lambda>p h. p = h \<or> p = cmul h (Some 0.85)) (map fst results) (map base_heater_power (iterrows t))"
    using run by (rule run_rows_powers)
  then have rel: "list_all2 (\<lambda>p h. p = h \<or> p = cmul h (Some 0.85)) (map fst results) hc"
    using base_heater_power_iterrows [OF rt hc] by simp
  have nonneg: "\<forall>v. Some v \<in> set hc \<longrightarrow> 0 \<le> v"
  proof (intro allI impI)
    fix v assume v: "Some v \<in> set hc"
    show "0 \<le> v"
    proof (cases "column (test_trip df test_trip_ids) ''heater_power_W''")
      case None
      then have "hc = replicate (nrows (test_trip df test_trip_ids)) (Some 2000)"
        using hc by (simp add: t_def column_with_heater)
      then show ?thesis using v by auto
    next
      case (Some c)
      then have "hc = c" using hc by (simp add: t_def column_with_heater)
      then show ?thesis using Some v assms(3) by blast
    qed
  qed
  have td: "\<forall>x. Some x \<in> set (trip_time_diff t) \<longrightarrow> 0 \<le> x"
    using assms(4) by (simp add: t_def trip_time_diff_with_heater)
  show ?thesis
    unfolding b opt using rel nonneg td by (rule heater_energy_mono)
qed

text \<open>The equations that evaluate the simulation on a concrete table.\<close>

lemmas simulate_eval =
  trip_energies_def test_trip_def trip_rows_def mask_rows_def select_rows_def nrows_def
  with_heater_def set_column_def column_def iterrows_def row_at_def run_intelli_therm_def
  prepare_features_for_prediction_def base_heater_power_def trip_time_diff_def diff_def
  fillna_def csub_def cmul_def heater_energy_def sum_skipna_def upt_rec Let_def

lemma two_trip_energies:
  "trip_energies two_trip_table (\<lambda>_. Inr 100) 90 [] [''T1''] = Inr (Some (2000, 1700))"
  by (simp add: two_trip_table_def simulate_eval)

theorem optimized_energy_le_baseline_witness:
  "rectangular two_trip_table
   \<and> column (test_trip two_trip_table [''T1'']) ''heater_power_W'' = Some [Some 2000, Some 2000]
   \<and> trip_time_diff (test_trip two_trip_table [''T1'']) = [Some 0, Some 1]
   \<and> trip_energies two_trip_table (\<lambda>_. Inr 100) 90 [] [''T1''] = Inr (Some (2000, 1700))
   \<and> (1700 :: real) \<le> 2000"
proof -
  have r: "rectangular two_trip_table"
    by (simp add: rectangular_def two_trip_table_def nrows_def)
  have c: "column (test_trip two_trip_table [''T1'']) ''heater_power_W'' = Some [Some 2000, Some 2000]"
    by (simp add: two_trip_table_def simulate_eval)
  have h: "\<forall>hc v. column (test_trip two_trip_table [''T1'']) ''heater_power_W'' = Some hc \<longrightarrow>
             Some v \<in> set hc \<longrightarrow> 0 \<le> v"
    unfolding c by auto
  have t: "trip_time_diff (test_trip two_trip_table [''T1'']) = [Some 0, Some 1]"
    by (simp add: two_trip_table_def simulate_eval)
  have d: "\<forall>d. Some d \<in> set (trip_time_diff (test_trip two_trip_table [''T1''])) \<longrightarrow> 0 \<le> d"
    unfolding t by auto
  show ?thesis
    using optimized_energy_le_baseline [OF r two_trip_energies h d] r c t two_trip_energies
    by simp
qed

text \<open>
  C2 without the sign condition fails: with readings of -1000 W and a model
  that always predicts a load above the threshold, the time differences are 0 and 1, the
  baseline total is -1000 J and the optimized total is -850 J.
\<close>

theorem optimized_energy_above_baseline:
  "trip_time_diff (test_trip negative_heater_trip [''T1'']) = [Some 0, Some 1]
   \<and> trip_energies negative_heater_trip (\<lambda>_. Inr 100) 90 [] [''T1''] = Inr (Some (- 1000, - 850))
   \<and> \<not> ((- 850 :: real) \<le> - 1000)"
  by (simp add: negative_heater_trip_def simulate_eval)

section \<open>Sorting a trip by time\<close>

lemma column_set_column:
  "column (set_column n c df) m = (if m = n then Some c else column df m)"
  by (simp add: column_def set_column_def update_conv')


lemma take_rows_upt: "take_rows [0..<length xs] xs = xs"
  by (simp add: take_rows_def map_nth)



lemma names_sort_values: "map fst (cols (sort_values order name df)) = map fst (cols df)"
  by (simp add: sort_values_def comp_def split: option.splits)


lemma column_None_iff: "column df name = None \<longleftrightarrow> name \<notin> set (map fst (cols df))"
  by (simp add: column_def map_of_eq_None_iff)



text \<open>The stable order is one of the orders that \<^verbatim>\<open>sort_values\<close> may take.\<close>

lemma sorting_order_stable: "sorting_order stable_order"
proof -
  have "distinct (stable_order keys) \<and> set (stable_order keys) = {..<length keys}
        \<and> sorted (map (\<lambda>i. sort_key_of (keys ! i)) (stable_order keys))" for keys
  proof -
    define zs where "zs = zip keys [0..<length keys]"
    define srt where "srt = sort_key (\<lambda>p. sort_key_of (fst p)) zs"
    have snd_zs: "map snd zs = [0..<length keys]"
      by (simp add: zs_def)
    have set_srt: "set srt = set zs"
      by (simp add: srt_def)
    have d_zs: "distinct (map snd zs)"
      unfolding snd_zs by simp
    then have "distinct zs" and inj: "inj_on snd (set zs)"
      by (simp_all add: distinct_map)
    then have "distinct srt"
      by (simp add: srt_def)
    then have d: "distinct (map snd srt)"
      using inj by (simp add: distinct_map set_srt)
    have "set (map snd srt) = set (map snd zs)"
      by (simp add: set_srt)
    then have s: "set (map snd srt) = {..<length keys}"
      unfolding snd_zs by (simp add: lessThan_atLeast0)
    have "keys ! snd p = fst p" if "p \<in> set srt" for p
      using that unfolding set_srt zs_def by (auto simp: in_set_zip)
    then have eq: "map (\<lambda>i. sort_key_of (keys ! i)) (map snd srt)
                 = map (\<lambda>p. sort_key_of (fst p)) srt"
      by simp
    have o: "sorted (map (\<lambda>i. sort_key_of (keys ! i)) (map snd srt))"
      unfolding eq by (simp add: srt_def)
    show ?thesis
      using d s o by (simp add: stable_order_def zs_def srt_def)
  qed
  then show ?thesis
    unfolding sorting_order_def by blast
qed

text \<open>A column that is in order already stays as it is under the stable order; when
  its keys are all different, under every order.\<close>

lemma stable_order_sorted:
  assumes "sorted (map sort_key_of keys)"
  shows "stable_order keys = [0..<length keys]"
proof -
  have "map (\<lambda>p. sort_key_of (fst p)) (zip keys [0..<length keys]) = map sort_key_of keys"
    by (simp add: map_fst_zip flip: map_map [unfolded comp_def])
  then have "sort_key (\<lambda>p. sort_key_of (fst p)) (zip keys [0..<length keys])
               = zip keys [0..<length keys]"
    using assms by (simp add: sort_key_id_if_sorted)
  then show ?thesis
    by (simp add: stable_order_def)
qed

lemma sorting_order_strict:
  assumes "sorting_order order" and "sorted_wrt (<) (map sort_key_of keys)"
  shows "order keys = [0..<length keys]"
proof -
  have d: "distinct (order keys)" and s: "set (order keys) = {..<length keys}"
    and o: "sorted (map (\<lambda>i. sort_key_of (keys ! i)) (order keys))"
    using assms(1) by (simp_all add: sorting_order_def)
  have "order keys ! a \<le> order keys ! b" if "a \<le> b" and "b < length (order keys)" for a b
  proof (rule ccontr)
    assume "\<not> order keys ! a \<le> order keys ! b"
    then have lt: "order keys ! b < order keys ! a" by simp
    have "order keys ! a \<in> set (order keys)" using that by simp
    then have a: "order keys ! a < length keys" using s by simp
    from lt a have "map sort_key_of keys ! (order keys ! b) < map sort_key_of keys ! (order keys ! a)"
      using assms(2) by (intro sorted_wrt_nth_less) simp_all
    then have "sort_key_of (keys ! (order keys ! b)) < sort_key_of (keys ! (order keys ! a))"
      using lt a by simp
    moreover have "map (\<lambda>i. sort_key_of (keys ! i)) (order keys) ! a
                     \<le> map (\<lambda>i. sort_key_of (keys ! i)) (order keys) ! b"
      using o that by (intro sorted_nth_mono) simp_all
    then have "sort_key_of (keys ! (order keys ! a)) \<le> sort_key_of (keys ! (order keys ! b))"
      using that by simp
    ultimately show False by simp
  qed
  then have "sorted (order keys)"
    by (simp add: sorted_iff_nth_mono)
  moreover have "set (order keys) = set [0..<length keys]"
    using s by (simp add: lessThan_atLeast0)
  ultimately show ?thesis
    using d by (intro sorted_distinct_set_unique) simp_all
qed

lemma sort_values_identity:
  assumes "column df name = Some k" and "order k = [0..<nrows df]" and "rectangular df"
  shows "sort_values order name df = df"
proof -
  have t: "take_rows [0..<nrows df] (trip_id df) = trip_id df"
    unfolding nrows_def by (rule take_rows_upt)
  have "take_rows [0..<nrows df] (snd nc) = snd nc" if "nc \<in> set (cols df)" for nc
  proof -
    have "length (snd nc) = nrows df"
      using that assms(3) by (simp add: rectangular_def list_all_iff)
    then show ?thesis using take_rows_upt [of "snd nc"] by simp
  qed
  then have "map (\<lambda>nc. (fst nc, take_rows [0..<nrows df] (snd nc))) (cols df) = cols df"
    by (simp add: map_idI)
  then show ?thesis
    using assms(1,2) t by (simp add: sort_values_def)
qed

lemma sort_values_stable_sorted:
  assumes "column df name = Some k" and "sorted (map sort_key_of k)" and "rectangular df"
  shows "sort_values stable_order name df = df"
proof -
  have "length k = nrows df"
    using assms(3,1) by (rule column_length)
  then have "stable_order k = [0..<nrows df]"
    using stable_order_sorted [OF assms(2)] by simp
  with assms(1) show ?thesis
    using assms(3) by (rule sort_values_identity)
qed

lemma sort_values_strict_sorted:
  assumes "sorting_order order" and "column df name = Some k"
    and "sorted_wrt (<) (map sort_key_of k)" and "rectangular df"
  shows "sort_values order name df = df"
proof -
  have "length k = nrows df"
    using assms(4,2) by (rule column_length)
  then have "order k = [0..<nrows df]"
    using sorting_order_strict [OF assms(1,3)] by simp
  with assms(2) show ?thesis
    using assms(4) by (rule sort_values_identity)
qed

section \<open>The loop over the trips and the combined table\<close>

lemma take_prefix_trans:
  assumes "length a \<le> length b" and "take (length a) b = a" and "take (length b) c = b"
  shows "take (length a) c = a"
proof -
  have "take (length a) c = take (length a) (take (length b) c)"
    using assms(1) by (simp add: min_def)
  then show ?thesis using assms(2,3) by simp
qed

text \<open>The loop only adds objects and writes to the objects it has added.\<close>

lemma per_trip_frame:
  "per_trip body de ts ps h = (h', res) \<Longrightarrow> length h \<le> length h' \<and> take (length h) h' = h"
proof (induction ts arbitrary: ps h h' res)
  case Nil
  then show ?case by simp
next
  case (Cons t ts)
  define f where "f = trip_rows t (h ! de)"
  define h1 where "h1 = h @ [f]"
  have h1: "length h \<le> length h1" "take (length h) h1 = h"
    by (simp_all add: h1_def)
  show ?case
  proof (cases "nrows (h1 ! length h) = 0")
    case True
    then have "per_trip body de ts ps h1 = (h', res)"
      using Cons.prems by (simp add: alloc_def f_def h1_def)
    from Cons.IH [OF this] have "length h1 \<le> length h'" "take (length h1) h' = h1"
      by simp_all
    then show ?thesis using h1 take_prefix_trans [of h h1 h'] by simp
  next
    case False
    show ?thesis
    proof (cases "body (h1 ! length h)")
      case (Inl e)
      then have "h' = h1"
        using Cons.prems False by (simp add: alloc_def f_def h1_def)
      then show ?thesis using h1 by simp
    next
      case (Inr g)
      define h2 where "h2 = h1[length h := g]"
      have h2: "length h \<le> length h2" "take (length h) h2 = h"
        by (simp_all add: h2_def h1_def)
      have "per_trip body de ts (ps @ [length h]) h2 = (h', res)"
        using Cons.prems False Inr by (simp add: alloc_def f_def h1_def h2_def)
      from Cons.IH [OF this] have "length h2 \<le> length h'" "take (length h2) h' = h2"
        by simp_all
      then show ?thesis using h2 take_prefix_trans [of h h2 h'] by simp
    qed
  qed
qed

lemma per_trip_after_copy:
  assumes "per_trip body (length h) ts [] (h @ [f]) = (h', res)"
  shows "length h \<le> length h' \<and> take (length h) h' = h"
proof -
  from per_trip_frame [OF assms]
  have "length (h @ [f]) \<le> length h'" "take (length (h @ [f])) h' = h @ [f]"
    by simp_all
  then show ?thesis using take_prefix_trans [of h "h @ [f]" h'] by simp
qed

text \<open>The rows of a trip that occurs in the table are not empty.\<close>

lemma select_rows_map: "select_rows (map P xs) xs = filter P xs"
  by (induction xs) (simp_all add: select_rows_def)

lemma trip_id_trip_rows: "trip_id (trip_rows t df) = filter (\<lambda>x. x = t) (trip_id df)"
  by (simp add: trip_rows_def mask_rows_def select_rows_map)

lemma trip_rows_not_empty:
  assumes "t \<in> set (trip_id df)"
  shows "nrows (trip_rows t df) \<noteq> 0"
  using assms by (auto simp: nrows_def trip_id_trip_rows filter_empty_conv)

lemma column_trip_rows_None: "column (trip_rows t df) name = None \<longleftrightarrow> column df name = None"
  by (simp add: trip_rows_def column_mask_rows)

text \<open>
  When the body raises on no trip, the loop returns the references of the processed
  copies, one for every trip with rows, each holding what the body made of the rows of
  its trip in the working copy.
\<close>

lemma per_trip_result:
  assumes "de < length h"
    and "\<forall>t \<in> set ts. nrows (trip_rows t (h ! de)) \<noteq> 0 \<longrightarrow> \<not> isl (body (trip_rows t (h ! de)))"
  shows "\<exists>h' new. per_trip body de ts ps h = (h', Inr (ps @ new))
           \<and> length h \<le> length h' \<and> take (length h) h' = h
           \<and> map (\<lambda>r. h' ! r) new
               = map (\<lambda>t. projr (body (trip_rows t (h ! de))))
                   (filter (\<lambda>t. nrows (trip_rows t (h ! de)) \<noteq> 0) ts)
           \<and> (\<forall>r \<in> set new. length h \<le> r)"
  using assms
proof (induction ts arbitrary: ps h)
  case Nil
  then show ?case by simp
next
  case (Cons t ts)
  define f where "f = trip_rows t (h ! de)"
  define h1 where "h1 = h @ [f]"
  have h1: "length h \<le> length h1" "take (length h) h1 = h" "de < length h1" "h1 ! de = h ! de"
    "h1 ! length h = f"
    using Cons.prems(1) by (simp_all add: h1_def nth_append)
  show ?case
  proof (cases "nrows f = 0")
    case True
    have step: "per_trip body de (t # ts) ps h = per_trip body de ts ps h1"
      using True by (simp add: alloc_def f_def h1_def)
    have "\<forall>t \<in> set ts. nrows (trip_rows t (h1 ! de)) \<noteq> 0 \<longrightarrow> \<not> isl (body (trip_rows t (h1 ! de)))"
      using Cons.prems(2) by (simp add: h1)
    from Cons.IH [OF h1(3) this, of ps] obtain h' new
      where r: "per_trip body de ts ps h1 = (h', Inr (ps @ new))"
        and l: "length h1 \<le> length h'" and tk: "take (length h1) h' = h1"
        and m: "map (\<lambda>r. h' ! r) new
                 = map (\<lambda>t. projr (body (trip_rows t (h1 ! de))))
                     (filter (\<lambda>t. nrows (trip_rows t (h1 ! de)) \<noteq> 0) ts)"
        and g: "\<forall>r \<in> set new. length h1 \<le> r"
      by blast
    have "take (length h) h' = h"
      using h1(1,2) tk by (rule take_prefix_trans)
    moreover have "\<forall>r \<in> set new. length h \<le> r"
      using g by (auto simp: h1_def)
    ultimately show ?thesis
      using r l m True h1(1) unfolding step h1(4) by (auto simp: f_def)
  next
    case False
    then have "\<not> isl (body f)"
      using Cons.prems(2) by (simp add: f_def)
    then obtain g where g: "body f = Inr g"
      by (cases "body f") simp_all
    define h2 where "h2 = h1[length h := g]"
    have h2: "length h \<le> length h2" "take (length h) h2 = h" "de < length h2" "h2 ! de = h ! de"
      "h2 ! length h = g" "length h < length h2"
      using Cons.prems(1) by (simp_all add: h2_def h1_def nth_append)
    have step: "per_trip body de (t # ts) ps h = per_trip body de ts (ps @ [length h]) h2"
      using False g by (simp add: alloc_def f_def h1_def h2_def)
    have "\<forall>t \<in> set ts. nrows (trip_rows t (h2 ! de)) \<noteq> 0 \<longrightarrow> \<not> isl (body (trip_rows t (h2 ! de)))"
      using Cons.prems(2) by (simp add: h2)
    from Cons.IH [OF h2(3) this, of "ps @ [length h]"] obtain h' new
      where r: "per_trip body de ts (ps @ [length h]) h2 = (h', Inr ((ps @ [length h]) @ new))"
        and l: "length h2 \<le> length h'" and tk: "take (length h2) h' = h2"
        and m: "map (\<lambda>r. h' ! r) new
                 = map (\<lambda>t. projr (body (trip_rows t (h2 ! de))))
                     (filter (\<lambda>t. nrows (trip_rows t (h2 ! de)) \<noteq> 0) ts)"
        and ge: "\<forall>r \<in> set new. length h2 \<le> r"
      by blast
    have tk': "take (length h) h' = h"
      using h2(1,2) tk by (rule take_prefix_trans)
    have "take (length h2) h' ! length h = h' ! length h"
      using h2(6) by simp
    then have at: "h' ! length h = g"
      using tk h2(5) by simp
    have ge': "\<forall>r \<in> set (length h # new). length h \<le> r"
      using ge h2(1) by auto
    have "map (\<lambda>r. h' ! r) (length h # new)
            = map (\<lambda>t. projr (body (trip_rows t (h ! de))))
                (filter (\<lambda>t. nrows (trip_rows t (h ! de)) \<noteq> 0) (t # ts))"
      using m False g at unfolding h2(4) by (simp add: f_def)
    moreover have "per_trip body de (t # ts) ps h = (h', Inr (ps @ (length h # new)))"
      unfolding step r by simp
    moreover have "length h \<le> length h'"
      using l h2(1) by simp
    ultimately show ?thesis
      using tk' ge' by blast
  qed
qed

text \<open>The loop as the three functions call it: on a fresh copy of the table, over the trip
  identifiers of the table.\<close>

lemma per_trip_table:
  assumes "\<forall>t \<in> set (trip_id (h ! df)). \<not> isl (body (trip_rows t (h ! df)))"
  shows "\<exists>h' new. per_trip body (length h) (unique (trip_id (h ! df))) [] (h @ [h ! df])
                      = (h', Inr new)
           \<and> length h < length h' \<and> take (length h) h' = h
           \<and> map (\<lambda>r. h' ! r) new
               = map (\<lambda>t. projr (body (trip_rows t (h ! df)))) (unique (trip_id (h ! df)))
           \<and> (\<forall>r \<in> set new. length h < r)"
proof -
  define h0 where "h0 = h @ [h ! df]"
  have h0: "length h < length h0" "h0 ! length h = h ! df" "take (length h) h0 = h"
    by (simp_all add: h0_def)
  have ne: "nrows (trip_rows t (h ! df)) \<noteq> 0" if "t \<in> set (unique (trip_id (h ! df)))" for t
    using that by (simp add: set_unique trip_rows_not_empty)
  have "\<forall>t \<in> set (unique (trip_id (h ! df))).
          nrows (trip_rows t (h0 ! length h)) \<noteq> 0 \<longrightarrow> \<not> isl (body (trip_rows t (h0 ! length h)))"
    using assms by (simp add: h0(2) set_unique)
  from per_trip_result [OF h0(1) this, of "[]"] obtain h' new
    where r: "per_trip body (length h) (unique (trip_id (h ! df))) [] h0 = (h', Inr new)"
      and l: "length h0 \<le> length h'" and tk: "take (length h0) h' = h0"
      and m: "map (\<lambda>r. h' ! r) new
               = map (\<lambda>t. projr (body (trip_rows t (h0 ! length h))))
                   (filter (\<lambda>t. nrows (trip_rows t (h0 ! length h)) \<noteq> 0) (unique (trip_id (h ! df))))"
      and g: "\<forall>r \<in> set new. length h0 \<le> r"
    unfolding append_Nil by blast
  have f: "filter (\<lambda>t. nrows (trip_rows t (h ! df)) \<noteq> 0) (unique (trip_id (h ! df)))
             = unique (trip_id (h ! df))"
    using ne by (simp add: filter_id_conv)
  have "take (length h) h' = h"
    using h0(1,3) tk take_prefix_trans [of h h0 h'] by simp
  moreover have "\<forall>r \<in> set new. length h < r"
    using g h0(1) by (auto simp: h0_def)
  moreover have "length h < length h'"
    using l h0(1) by simp
  moreover note r [unfolded h0_def] m [unfolded h0(2) f]
  ultimately show ?thesis
    by blast
qed

text \<open>The columns of the combined table.\<close>

lemma map_of_map_key:
  "map_of (map (\<lambda>k. (k, f k)) ks) k = (if k \<in> set ks then Some (f k) else None)"
  by (induction ks) auto

lemma column_concat_frames:
  "column (concat_frames dfs) name =
     (if \<exists>df \<in> set dfs. column df name \<noteq> None
      then Some (concat (map (\<lambda>df. case column df name of
                                      Some c \<Rightarrow> c
                                    | None \<Rightarrow> replicate (nrows df) None) dfs))
      else None)"
  unfolding column_def concat_frames_def
  by (auto simp: map_of_map_key set_unique map_of_eq_None_iff)

lemma unique_distinct: "distinct xs \<Longrightarrow> unique xs = xs"
  by (induction xs) simp_all

lemma concat_frames_single:
  assumes "distinct (map fst (cols df))"
  shows "concat_frames [df] = df"
proof -
  have "(fst nc, case column df (fst nc) of Some c \<Rightarrow> c | None \<Rightarrow> replicate (nrows df) None) = nc"
    if "nc \<in> set (cols df)" for nc
  proof -
    have "map_of (cols df) (fst nc) = Some (snd nc)"
      using assms that by (simp add: map_of_eq_Some_iff)
    then show ?thesis by (simp add: column_def)
  qed
  then have "map (\<lambda>nc. (fst nc, case column df (fst nc) of
                                    Some c \<Rightarrow> c
                                  | None \<Rightarrow> replicate (nrows df) None)) (cols df) = cols df"
    by (simp add: map_idI)
  then show ?thesis
    using assms by (simp add: concat_frames_def unique_distinct comp_def)
qed

section \<open>The rate-of-change features\<close>


lemma diff_first: "xs \<noteq> [] \<Longrightarrow> diff xs ! 0 = None"
  by (cases xs) (simp_all add: diff_def)



lemma length_winsorize: "length (winsorize xs) = length xs"
  by (simp add: winsorize_def split: option.splits)

lemma clip_band:
  assumes "lo \<le> hi"
  shows "clip_lower lo (clip_upper hi (Some v)) = Some (max lo (min hi v))"
  using assms by (auto simp: clip_lower_def clip_upper_def max_def min_def)

lemma std_nonneg:
  assumes "std xs = Some sd"
  shows "0 \<le> sd"
proof -
  define vs where "vs = non_null xs"
  define mu where "mu = sum_list vs / real (length vs)"
  have n: "2 \<le> length vs"
    and sd: "sd = sqrt (sum_list (map (\<lambda>v. (v - mu) ^ 2) vs) / real (length vs - 1))"
    using assms by (auto simp: std_def Let_def vs_def mu_def split: if_splits)
  have "0 \<le> sum_list (map (\<lambda>v. (v - mu) ^ 2) vs)"
    by (rule sum_list_nonneg) auto
  then have "0 \<le> sum_list (map (\<lambda>v. (v - mu) ^ 2) vs) / real (length vs - 1)"
    by (rule divide_nonneg_nonneg) simp
  then show ?thesis unfolding sd by simp
qed



text \<open>The columns that the two blocks write.\<close>

lemma add_acceleration_column:
  assumes "column trip_df ''speed_kmh'' = Some speed_kmh"
    and "column trip_df time_col = Some time"
    and "time_col \<noteq> ''speed_ms''" and "time_col \<noteq> ''speed_diff''"
  shows "\<exists>out. add_acceleration time_col trip_df = Inr out
           \<and> column out ''time_diff'' = Some (diff time)
           \<and> column out ''acceleration_ms2''
               = Some (winsorize (guarded_rate (diff (map (\<lambda>c. cdiv c (Some 3.6)) speed_kmh)) (diff time)))"
  using assms by (simp add: add_acceleration_def Let_def column_set_column)

lemma add_throttle_rate_column:
  assumes "throttle_column trip_df = Some throttle_col"
    and "column trip_df throttle_col = Some throttle"
    and "column trip_df ''time_diff'' = Some time_diff"
  shows "\<exists>out. add_throttle_rate trip_df = Inr out
           \<and> column out ''throttle_change_rate''
               = Some (winsorize (guarded_rate (diff throttle) time_diff))"
  using assms by (simp add: add_throttle_rate_def Let_def column_set_column)


lemma throttle_column_names:
  assumes "map fst (cols a) = map fst (cols b)"
  shows "throttle_column a = throttle_column b"
proof -
  have "column a ''throttle_pedal_%'' = None \<longleftrightarrow> column b ''throttle_pedal_%'' = None"
    by (simp add: column_None_iff assms)
  then show ?thesis
    by (simp add: throttle_column_def assms)
qed


lemma throttle_column_Some:
  assumes "throttle_column df = Some throttle_col"
  shows "column df throttle_col \<noteq> None"
    and "throttle_col = ''throttle_pedal_%'' \<or> contains ''throttle'' (lower throttle_col)"
proof -
  have "column df throttle_col \<noteq> None
        \<and> (throttle_col = ''throttle_pedal_%'' \<or> contains ''throttle'' (lower throttle_col))"
  proof (cases "column df ''throttle_pedal_%'' = None")
    case False
    then show ?thesis using assms by (auto simp: throttle_column_def)
  next
    case True
    then obtain r where "filter (\<lambda>col. contains ''throttle'' (lower col)) (map fst (cols df))
                          = throttle_col # r"
      using assms by (auto simp: throttle_column_def split: list.splits)
    then have "throttle_col \<in> set (filter (\<lambda>col. contains ''throttle'' (lower col)) (map fst (cols df)))"
      by simp
    then show ?thesis
      by (auto simp: column_None_iff)
  qed
  then show "column df throttle_col \<noteq> None"
    and "throttle_col = ''throttle_pedal_%'' \<or> contains ''throttle'' (lower throttle_col)"
    by simp_all
qed












text \<open>
  The throttle block reads the column \<^verbatim>\<open>time_diff\<close>, which only the acceleration block
  makes: on a trip with a time column and a throttle column, and without a speed column and
  a \<^verbatim>\<open>time_diff\<close> column of its own, the body of the loop raises \<^verbatim>\<open>KeyError\<close>.
\<close>

lemma rate_of_change_trip_throttle_only:
  assumes "column trip_df (time_column trip_df) \<noteq> None"
    and "column trip_df ''speed_kmh'' = None" and "column trip_df ''time_diff'' = None"
    and "throttle_column trip_df = Some throttle_col"
  shows "rate_of_change_trip order trip_df = Inl KeyError"
proof -
  define s where "s = sort_values order (time_column trip_df) trip_df"
  have n: "map fst (cols s) = map fst (cols trip_df)"
    by (simp add: s_def names_sort_values)
  then have c: "column s ''speed_kmh'' = None" "column s ''time_diff'' = None"
    using assms(2,3) by (simp_all add: column_None_iff)
  have t: "throttle_column s = Some throttle_col"
    using throttle_column_names [OF n] assms(4) by simp
  from throttle_column_Some(1) [OF t] obtain throttle where "column s throttle_col = Some throttle"
    by auto
  then have "add_throttle_rate s = Inl KeyError"
    using t c(2) by (simp add: add_throttle_rate_def Let_def column_set_column)
  moreover have "add_acceleration (time_column trip_df) s = Inr s"
    using c(1) by (simp add: add_acceleration_def)
  ultimately show ?thesis
    using assms(1) by (simp add: rate_of_change_trip_def Let_def flip: s_def)
qed

lemma throttle_only_trip_key_error:
  "rate_of_change_trip order throttle_only_trip = Inl KeyError"
  by (rule rate_of_change_trip_throttle_only [of _ "''throttle_pedal_%''"])
     (simp_all add: time_column_def throttle_column_def column_def throttle_only_trip_def)

subsection \<open>The ramp trip\<close>

lemma ramp_rectangular: "rectangular ramp_trip"
  by (simp add: rectangular_def ramp_trip_def nrows_def)

lemma ramp_time:
  "column ramp_trip ''time_s'' = Some (snd (cols ramp_trip ! 0))"
  "sorted_wrt (<) (map sort_key_of (snd (cols ramp_trip ! 0)))"
  by (simp_all add: column_def ramp_trip_def sort_key_of_def)

lemma ramp_sorted: "sort_values stable_order ''time_s'' ramp_trip = ramp_trip"
  using sorting_order_stable ramp_time ramp_rectangular by (rule sort_values_strict_sorted)

text \<open>The timestamps of the ramp trip are all different: every order that
  \<^verbatim>\<open>sort_values\<close> may take leaves the trip as it is.\<close>

lemma ramp_any_order:
  assumes "sorting_order order"
  shows "rate_of_change_trip order ramp_trip = rate_of_change_trip stable_order ramp_trip"
proof -
  have "sort_values order ''time_s'' ramp_trip = ramp_trip"
    using assms ramp_time ramp_rectangular by (rule sort_values_strict_sorted)
  moreover have "time_column ramp_trip = ''time_s''"
    by (simp add: time_column_def ramp_time)
  ultimately show ?thesis
    by (simp add: rate_of_change_trip_def Let_def ramp_sorted)
qed

lemma ramp_raw:
  "guarded_rate (diff (map (\<lambda>c. cdiv c (Some 3.6)) (snd (cols ramp_trip ! 1))))
     (diff (snd (cols ramp_trip ! 0))) = ramp_raw"
  by (simp add: ramp_trip_def ramp_raw_def guarded_rate_def diff_def cdiv_def csub_def)

lemma ramp_raw_mean: "mean ramp_raw = Some 1.5"
  by (simp add: mean_def ramp_raw_def non_null_def List.map_filter_simps)

lemma ramp_raw_std: "std ramp_raw = Some 0.4"
proof -
  have "sqrt (4 / 25) = 2 / 5"
    by (rule real_sqrt_unique) (simp_all add: power2_eq_square)
  then show ?thesis
    by (simp add: std_def ramp_raw_def non_null_def List.map_filter_simps power2_eq_square)
qed

lemma ramp_winsorize: "winsorize ramp_raw = ramp_acceleration"
  unfolding winsorize_def ramp_raw_mean ramp_raw_std
  by (simp add: ramp_raw_def ramp_acceleration_def clip_lower_def clip_upper_def)

lemma ramp_rate_of_change:
  "\<not> isl (rate_of_change_trip stable_order ramp_trip)"
  "column (projr (rate_of_change_trip stable_order ramp_trip)) ''time_diff''
     = Some (diff (snd (cols ramp_trip ! 0)))"
  "column (projr (rate_of_change_trip stable_order ramp_trip)) ''acceleration_ms2'' = Some ramp_acceleration"
proof -
  have sp: "column ramp_trip ''speed_kmh'' = Some (snd (cols ramp_trip ! 1))"
    and ti: "column ramp_trip ''time_s'' = Some (snd (cols ramp_trip ! 0))"
    by (simp_all add: column_def ramp_trip_def)
  have "\<exists>out. add_acceleration ''time_s'' ramp_trip = Inr out
           \<and> column out ''time_diff'' = Some (diff (snd (cols ramp_trip ! 0)))
           \<and> column out ''acceleration_ms2''
               = Some (winsorize (guarded_rate (diff (map (\<lambda>c. cdiv c (Some 3.6)) (snd (cols ramp_trip ! 1))))
                    (diff (snd (cols ramp_trip ! 0)))))"
    by (rule add_acceleration_column [OF sp ti]) simp_all
  then obtain out where out: "add_acceleration ''time_s'' ramp_trip = Inr out"
    and td: "column out ''time_diff'' = Some (diff (snd (cols ramp_trip ! 0)))"
    and acc: "column out ''acceleration_ms2'' = Some ramp_acceleration"
    unfolding ramp_raw ramp_winsorize by blast
  have "\<exists>a b c d. out = set_column ''acceleration_ms2'' a (set_column ''time_diff'' b
           (set_column ''speed_diff'' c (set_column ''speed_ms'' d ramp_trip)))"
    using out by (auto simp: add_acceleration_def sp ti Let_def column_set_column)
  then have names: "map fst (cols out) = [''time_s'', ''speed_kmh'', ''speed_ms'', ''speed_diff'', ''time_diff'', ''acceleration_ms2'']"
    by (auto simp: set_column_def ramp_trip_def)
  have "fst ` set (cols out) = set (map fst (cols out))"
    by simp
  then have "''throttle_pedal_%'' \<notin> fst ` set (cols out)"
    unfolding names by simp
  then have "throttle_column out = None"
    by (simp add: throttle_column_def column_def map_of_eq_None_iff names lower_def lower_char_def)
  then have "add_throttle_rate out = Inr out"
    by (simp add: add_throttle_rate_def)
  then have r: "rate_of_change_trip stable_order ramp_trip = Inr out"
    by (simp add: rate_of_change_trip_def time_column_def ti ramp_sorted out)
  show "\<not> isl (rate_of_change_trip stable_order ramp_trip)"
    "column (projr (rate_of_change_trip stable_order ramp_trip)) ''time_diff''
       = Some (diff (snd (cols ramp_trip ! 0)))"
    "column (projr (rate_of_change_trip stable_order ramp_trip)) ''acceleration_ms2'' = Some ramp_acceleration"
    by (simp_all add: r td acc)
qed


lemma std_zero_all_mean:
  assumes "std xs = Some 0" and "mean xs = Some mu" and "Some v \<in> set xs"
  shows "v = mu"
proof -
  define vs where "vs = non_null xs"
  have v: "v \<in> set vs"
    using assms(3) by (force simp: vs_def non_null_def map_filter_def)
  have mu: "mu = sum_list vs / real (length vs)"
    using assms(2) by (auto simp: mean_def Let_def vs_def split: if_splits)
  have n: "2 \<le> length vs"
    and sd: "sqrt (sum_list (map (\<lambda>v. (v - mu) ^ 2) vs) / real (length vs - 1)) = 0"
    using assms(1) by (auto simp: std_def Let_def vs_def mu split: if_splits)
  have "sum_list (map (\<lambda>v. (v - mu) ^ 2) vs) = 0"
    using sd n by simp
  moreover have "\<forall>x \<in> set (map (\<lambda>v. (v - mu) ^ 2) vs). 0 \<le> x"
    by auto
  ultimately have "\<forall>x \<in> set (map (\<lambda>v. (v - mu) ^ 2) vs). x = 0"
    using sum_list_nonneg_eq_0_iff [of "map (\<lambda>v. (v - mu) ^ 2) vs"] by blast
  then have "(v - mu) ^ 2 = 0" using v by auto
  then show ?thesis by simp
qed

text \<open>
  C5 (as the code has it). After the clean-up no value of the column lies above
  \<open>mean + 3 * std\<close> or below \<open>mean - 3 * std\<close>, where the mean and the standard deviation are
  those of the column before the clean-up, the ones the code computes.
\<close>

theorem winsorize_within_band:
  assumes "std xs = Some sd" and "mean xs = Some mu" and "Some v \<in> set (winsorize xs)"
  shows "mu - 3 * sd \<le> v \<and> v \<le> mu + 3 * sd"
proof (cases "sd > 0")
  case True
  from assms(3) obtain c where c: "c \<in> set xs"
    and v: "Some v = clip_lower (mu - 3 * sd) (clip_upper (mu + 3 * sd) c)"
    using assms(1,2) True by (auto simp: winsorize_def)
  from v obtain w where "c = Some w"
    by (cases c) (simp_all add: clip_lower_def clip_upper_def)
  then have "v = max (mu - 3 * sd) (min (mu + 3 * sd) w)"
    using v True clip_band [of "mu - 3 * sd" "mu + 3 * sd" w] by simp
  then show ?thesis using True by auto
next
  case False
  then have z: "sd = 0" using std_nonneg [OF assms(1)] by simp
  then have "Some v \<in> set xs" using assms by (simp add: winsorize_def)
  then have "v = mu" using assms(1,2) z std_zero_all_mean by blast
  then show ?thesis by (simp add: z)
qed

theorem winsorize_within_band_witness:
  "std ramp_raw = Some 0.4 \<and> mean ramp_raw = Some 1.5
   \<and> Some 0.3 \<in> set (winsorize ramp_raw) \<and> (1.5 - 3 * 0.4 :: real) \<le> 0.3
   \<and> (0.3 :: real) \<le> 1.5 + 3 * 0.4"
proof -
  have m: "Some 0.3 \<in> set (winsorize ramp_raw)"
    by (simp add: ramp_winsorize ramp_acceleration_def)
  show ?thesis
    using winsorize_within_band [OF ramp_raw_std ramp_raw_mean m] ramp_raw_std ramp_raw_mean m
    by simp
qed

text \<open>
  C5 with the mean and the standard deviation taken again on the cleaned column, as the
  specification words it, fails: on the ramp trip the cleaned column holds 0.3, its
  mean is 1.51875 and its standard deviation 0.325, and \<open>0.3 < 1.51875 - 3 * 0.325\<close>.
\<close>

theorem ramp_below_recomputed_band:
  "column (projr (rate_of_change_trip stable_order ramp_trip)) ''acceleration_ms2'' = Some ramp_acceleration
   \<and> Some 0.3 \<in> set ramp_acceleration
   \<and> mean ramp_acceleration = Some 1.51875
   \<and> std ramp_acceleration = Some 0.325
   \<and> (0.3 :: real) < 1.51875 - 3 * 0.325"
proof -
  have "sqrt (169 / 1600) = 13 / 40"
    by (rule real_sqrt_unique) (simp_all add: power2_eq_square)
  then have "std ramp_acceleration = Some 0.325"
    by (simp add: std_def ramp_acceleration_def non_null_def List.map_filter_simps power2_eq_square)
  moreover have "mean ramp_acceleration = Some 1.51875"
    by (simp add: mean_def ramp_acceleration_def non_null_def List.map_filter_simps)
  ultimately show ?thesis
    by (simp add: ramp_rate_of_change) (simp add: ramp_acceleration_def)
qed

section \<open>Lag columns\<close>

declare str_of_nat.simps [simp del]

lemma str_of_nat_values:
  "str_of_nat 1 = ''1''" "str_of_nat 2 = ''2''" "str_of_nat 3 = ''3''"
  "str_of_nat 5 = ''5''" "str_of_nat 10 = ''10''" "str_of_nat (Suc 0) = ''1''"
  by code_simp+











section \<open>Target columns\<close>









section \<open>What the feature functions do to the table they are given\<close>

lemma create_rate_of_change_features_frame:
  "take (length h) (fst (create_rate_of_change_features order df h)) = h"
proof -
  obtain h' res where p: "per_trip (rate_of_change_trip order) (length h)
      (unique (trip_id ((h @ [h ! df]) ! length h))) [] (h @ [h ! df]) = (h', res)"
    by (cases "per_trip (rate_of_change_trip order) (length h)
      (unique (trip_id ((h @ [h ! df]) ! length h))) [] (h @ [h ! df])") blast
  from per_trip_after_copy [OF p] have "length h \<le> length h'" "take (length h) h' = h"
    by simp_all
  then show ?thesis
    using p by (auto simp: create_rate_of_change_features_def alloc_def Let_def split: sum.splits)
qed

lemma create_lagged_features_frame:
  "take (length h) (fst (create_lagged_features order df h)) = h"
proof -
  obtain h' res where p: "per_trip (lag_trip order (lag_features (h ! df))) (length h)
      (unique (trip_id ((h @ [h ! df]) ! length h))) [] (h @ [h ! df]) = (h', res)"
    by (cases "per_trip (lag_trip order (lag_features (h ! df))) (length h)
      (unique (trip_id ((h @ [h ! df]) ! length h))) [] (h @ [h ! df])") blast
  from per_trip_after_copy [OF p] have "length h \<le> length h'" "take (length h) h' = h"
    by simp_all
  then show ?thesis
    using p by (auto simp: create_lagged_features_def alloc_def Let_def split: sum.splits)
qed

lemma create_target_variables_frame:
  "take (length h) (fst (create_target_variables order df future_horizons h)) = h"
proof -
  obtain h' res where p: "per_trip (target_trip order future_horizons) (length h)
      (unique (trip_id ((h @ [h ! df]) ! length h))) [] (h @ [h ! df]) = (h', res)"
    by (cases "per_trip (target_trip order future_horizons) (length h)
      (unique (trip_id ((h @ [h ! df]) ! length h))) [] (h @ [h ! df])") blast
  from per_trip_after_copy [OF p] have "length h \<le> length h'" "take (length h) h' = h"
    by simp_all
  then show ?thesis
    using p by (auto simp: create_target_variables_def alloc_def Let_def split: sum.splits)
qed

text \<open>
  C9 (as the code has it). The rate-of-change, lag and target functions work on copies: every
  table that exists when one of them is called, the table it is given among them, is the
  same afterwards. The instantaneous-load computation is different: when the table has the
  two battery columns, the load column is written into the table that was passed.
\<close>

theorem feature_functions_frame:
  assumes "df < length h"
  shows "take (length h) (fst (create_rate_of_change_features order df h)) = h
         \<and> take (length h) (fst (create_lagged_features order df h)) = h
         \<and> take (length h) (fst (create_target_variables order df future_horizons h)) = h
         \<and> fst (create_rate_of_change_features order df h) ! df = h ! df
         \<and> fst (create_lagged_features order df h) ! df = h ! df
         \<and> fst (create_target_variables order df future_horizons h) ! df = h ! df
         \<and> (battery_column ''battery_voltage_V'' ''voltage'' (h ! df) = Some voltage_col \<longrightarrow>
             battery_column ''battery_current_A'' ''current'' (h ! df) = Some current_col \<longrightarrow>
             column (h ! df) voltage_col = Some voltage \<longrightarrow>
             column (h ! df) current_col = Some current \<longrightarrow>
               fst (create_powertrain_load_feature df h) ! df
                 = set_column ''powertrain_load_W'' (map2 cmul voltage current) (h ! df))"
proof -
  have nth: "h' ! df = h ! df" if "take (length h) h' = h" for h' :: heap
  proof -
    have "take (length h) h' ! df = h' ! df" using assms by simp
    then show ?thesis using that by simp
  qed
  have load: "fst (create_powertrain_load_feature df h) ! df
                = set_column ''powertrain_load_W'' (map2 cmul voltage current) (h ! df)"
    if "battery_column ''battery_voltage_V'' ''voltage'' (h ! df) = Some voltage_col"
      and "battery_column ''battery_current_A'' ''current'' (h ! df) = Some current_col"
      and "column (h ! df) voltage_col = Some voltage"
      and "column (h ! df) current_col = Some current"
    using that assms
    by (simp add: create_powertrain_load_feature_def alloc_def Let_def nth_append)
  show ?thesis
    using nth [OF create_rate_of_change_features_frame]
      nth [OF create_lagged_features_frame] nth [OF create_target_variables_frame]
      create_rate_of_change_features_frame create_lagged_features_frame
      create_target_variables_frame load
    by simp
qed

subsection \<open>The cruise table\<close>

lemma cruise_trip_rows: "trip_rows ''A01'' cruise_loaded = cruise_loaded"
  by (simp add: trip_rows_def mask_rows_def select_rows_def cruise_loaded_def)

lemma cruise_time: "column cruise_loaded ''time_s'' = Some [Some 0, Some 1, Some 2]"
  by (simp add: column_def cruise_loaded_def)

lemma cruise_sort_values: "sort_values stable_order ''time_s'' cruise_loaded = cruise_loaded"
proof -
  have "sorted (map sort_key_of [Some 0, Some 1, Some 2])"
    by (simp add: sort_key_of_def)
  moreover have "rectangular cruise_loaded"
    by (simp add: rectangular_def cruise_loaded_def nrows_def)
  ultimately show ?thesis
    using cruise_time by (intro sort_values_stable_sorted)
qed

lemma cruise_sorted: "sorted_trip stable_order cruise_loaded = cruise_loaded"
  by (simp add: sorted_trip_def time_column_def cruise_time cruise_sort_values)

lemma cruise_load:
  "create_powertrain_load_feature 0 [cruise_table] = ([cruise_loaded, cruise_loaded], Inr (Some 4000))"
  by (simp add: create_powertrain_load_feature_def battery_column_def column_def cruise_table_def
      cruise_loaded_def alloc_def Let_def cmul_def set_column_def trip_rows_def mask_rows_def
      select_rows_def nrows_def time_column_def quantile_def non_null_def List.map_filter_simps)

lemma cruise_rates_trip:
  "rate_of_change_trip stable_order cruise_loaded =
     Inr (cruise_loaded\<lparr>cols := cols cruise_loaded @
            [(''speed_ms'', [Some 10, Some 10, Some 10]),
             (''speed_diff'', [None, Some 0, Some 0]),
             (''time_diff'', [None, Some 1, Some 1]),
             (''acceleration_ms2'', [Some 0, Some 0, Some 0])]\<rparr>)"
proof -
  have w: "winsorize [Some 0, Some 0, Some 0] = [Some 0, Some 0, Some 0]"
    by (simp add: winsorize_def std_def non_null_def List.map_filter_simps)
  have a: "add_acceleration ''time_s'' cruise_loaded =
     Inr (cruise_loaded\<lparr>cols := cols cruise_loaded @
            [(''speed_ms'', [Some 10, Some 10, Some 10]),
             (''speed_diff'', [None, Some 0, Some 0]),
             (''time_diff'', [None, Some 1, Some 1]),
             (''acceleration_ms2'', [Some 0, Some 0, Some 0])]\<rparr>)"
    by (simp add: add_acceleration_def Let_def column_def set_column_def cruise_loaded_def
        cdiv_def diff_def csub_def guarded_rate_def w)
  have t: "throttle_column (cruise_loaded\<lparr>cols := cols cruise_loaded @
            [(''speed_ms'', [Some 10, Some 10, Some 10]),
             (''speed_diff'', [None, Some 0, Some 0]),
             (''time_diff'', [None, Some 1, Some 1]),
             (''acceleration_ms2'', [Some 0, Some 0, Some 0])]\<rparr>) = None"
    by (simp add: throttle_column_def column_def cruise_loaded_def lower_def lower_char_def)
  show ?thesis
    by (simp add: rate_of_change_trip_def time_column_def cruise_time cruise_sort_values a
        add_throttle_rate_def t)
qed

lemma cruise_lags_trip:
  "lag_trip stable_order [''powertrain_load_W'', ''speed_kmh''] cruise_loaded =
     Inr (cruise_loaded\<lparr>cols := cols cruise_loaded @
            [(''powertrain_load_W_lag1'', [Some 4000, Some 4000, Some 4000]),
             (''powertrain_load_W_lag2'', [Some 4000, Some 4000, Some 4000]),
             (''powertrain_load_W_lag3'', [None, None, None]),
             (''powertrain_load_W_lag5'', [None, None, None]),
             (''powertrain_load_W_lag10'', [None, None, None]),
             (''speed_kmh_lag1'', [Some 36, Some 36, Some 36]),
             (''speed_kmh_lag2'', [Some 36, Some 36, Some 36]),
             (''speed_kmh_lag3'', [None, None, None]),
             (''speed_kmh_lag5'', [None, None, None]),
             (''speed_kmh_lag10'', [None, None, None])]\<rparr>)"
  by (simp add: lag_trip_def cruise_sorted Let_def)
     (simp add: cruise_loaded_def add_lags_def add_lag_def lag_periods_def lag_col_name_def
        str_of_nat_values bfill_frame_def shift_down_def set_column_def column_def)

lemma cruise_targets_trip:
  "target_trip stable_order [1] cruise_loaded =
     Inr (cruise_loaded\<lparr>cols := cols cruise_loaded @
            [(''future_load_W_1s'', [Some 4000, Some 4000, None])]\<rparr>)"
  by (simp add: target_trip_def cruise_sorted)
     (simp add: cruise_loaded_def add_target_def target_col_name_def str_of_nat_values
        shift_up_def set_column_def column_def)

lemma cruise_features: "lag_features cruise_loaded = [''powertrain_load_W'', ''speed_kmh'']"
  by (simp add: lag_features_def column_def cruise_loaded_def lower_def lower_char_def)

lemma cruise_rates:
  "create_rate_of_change_features stable_order 0 [cruise_loaded] =
     ([cruise_loaded, cruise_loaded,
       projr (rate_of_change_trip stable_order cruise_loaded),
       projr (rate_of_change_trip stable_order cruise_loaded)], Inr 3)"
proof -
  have u: "unique (trip_id cruise_loaded) = [''A01'']"
    by (simp add: cruise_loaded_def)
  have n: "nrows cruise_loaded \<noteq> 0"
    by (simp add: nrows_def cruise_loaded_def)
  obtain out where r: "rate_of_change_trip stable_order cruise_loaded = Inr out"
    and d: "distinct (map fst (cols out))"
    using cruise_rates_trip by (simp add: cruise_loaded_def)
  have c: "concat_frames [out] = out"
    using d by (rule concat_frames_single)
  show ?thesis
    unfolding create_rate_of_change_features_def
    by (simp add: alloc_def u n cruise_trip_rows r c)
qed

lemma cruise_lags:
  "create_lagged_features stable_order 0 [cruise_loaded] =
     ([cruise_loaded, cruise_loaded,
       projr (lag_trip stable_order [''powertrain_load_W'', ''speed_kmh''] cruise_loaded),
       projr (lag_trip stable_order [''powertrain_load_W'', ''speed_kmh''] cruise_loaded)], Inr 3)"
proof -
  have u: "unique (trip_id cruise_loaded) = [''A01'']"
    by (simp add: cruise_loaded_def)
  have n: "nrows cruise_loaded \<noteq> 0"
    by (simp add: nrows_def cruise_loaded_def)
  obtain out where r: "lag_trip stable_order [''powertrain_load_W'', ''speed_kmh''] cruise_loaded = Inr out"
    and d: "distinct (map fst (cols out))"
    using cruise_lags_trip by (simp add: cruise_loaded_def)
  have c: "concat_frames [out] = out"
    using d by (rule concat_frames_single)
  show ?thesis
    unfolding create_lagged_features_def
    by (simp add: alloc_def u n cruise_trip_rows r c cruise_features)
qed

lemma cruise_targets:
  "create_target_variables stable_order 0 [1] [cruise_loaded] =
     ([cruise_loaded, cruise_loaded,
       projr (target_trip stable_order [1] cruise_loaded),
       projr (target_trip stable_order [1] cruise_loaded),
       \<lparr>trip_id = [''A01'', ''A01''],
        cols = [(''time_s'', [Some 0, Some 1]),
                (''speed_kmh'', [Some 36, Some 36]),
                (''battery_voltage_V'', [Some 400, Some 400]),
                (''battery_current_A'', [Some 10, Some 10]),
                (''powertrain_load_W'', [Some 4000, Some 4000]),
                (''future_load_W_1s'', [Some 4000, Some 4000])]\<rparr>], Inr 4)"
proof -
  define hs where "hs = [1::nat]"
  have u: "unique (trip_id cruise_loaded) = [''A01'']"
    by (simp add: cruise_loaded_def)
  have n: "nrows cruise_loaded \<noteq> 0" "column cruise_loaded ''powertrain_load_W'' \<noteq> None"
    by (simp_all add: nrows_def column_def cruise_loaded_def)
  obtain out where r: "target_trip stable_order hs cruise_loaded = Inr out"
    and d: "distinct (map fst (cols out))"
    and dr: "dropna (map target_col_name hs) out
             = Inr \<lparr>trip_id = [''A01'', ''A01''],
        cols = [(''time_s'', [Some 0, Some 1]),
                (''speed_kmh'', [Some 36, Some 36]),
                (''battery_voltage_V'', [Some 400, Some 400]),
                (''battery_current_A'', [Some 10, Some 10]),
                (''powertrain_load_W'', [Some 4000, Some 4000]),
                (''future_load_W_1s'', [Some 4000, Some 4000])]\<rparr>"
    using cruise_targets_trip unfolding hs_def
    by (simp add: dropna_def target_col_name_def str_of_nat_values column_def cruise_loaded_def
        row_complete_def nrows_def mask_rows_def select_rows_def upt_rec)
  have c: "concat_frames [out] = out"
    using d by (rule concat_frames_single)
  have "create_target_variables stable_order 0 hs [cruise_loaded] =
     ([cruise_loaded, cruise_loaded, projr (target_trip stable_order hs cruise_loaded),
       projr (target_trip stable_order hs cruise_loaded),
       \<lparr>trip_id = [''A01'', ''A01''],
        cols = [(''time_s'', [Some 0, Some 1]),
                (''speed_kmh'', [Some 36, Some 36]),
                (''battery_voltage_V'', [Some 400, Some 400]),
                (''battery_current_A'', [Some 10, Some 10]),
                (''powertrain_load_W'', [Some 4000, Some 4000]),
                (''future_load_W_1s'', [Some 4000, Some 4000])]\<rparr>], Inr 4)"
    unfolding create_target_variables_def
    by (simp add: alloc_def u n cruise_trip_rows r c dr)
  then show ?thesis
    unfolding hs_def .
qed

theorem feature_functions_frame_witness:
  "fst (create_rate_of_change_features stable_order 0 [cruise_loaded]) ! 0 = cruise_loaded
   \<and> snd (create_rate_of_change_features stable_order 0 [cruise_loaded]) = Inr 3
   \<and> column (fst (create_rate_of_change_features stable_order 0 [cruise_loaded]) ! 3)
         ''acceleration_ms2'' = Some [Some 0, Some 0, Some 0]
   \<and> fst (create_lagged_features stable_order 0 [cruise_loaded]) ! 0 = cruise_loaded
   \<and> snd (create_lagged_features stable_order 0 [cruise_loaded]) = Inr 3
   \<and> column (fst (create_lagged_features stable_order 0 [cruise_loaded]) ! 3)
         ''speed_kmh_lag1'' = Some [Some 36, Some 36, Some 36]
   \<and> fst (create_target_variables stable_order 0 [1] [cruise_loaded]) ! 0 = cruise_loaded
   \<and> snd (create_target_variables stable_order 0 [1] [cruise_loaded]) = Inr 4
   \<and> column (fst (create_target_variables stable_order 0 [1] [cruise_loaded]) ! 4)
         ''future_load_W_1s'' = Some [Some 4000, Some 4000]
   \<and> snd (create_powertrain_load_feature 0 [cruise_table]) = Inr (Some 4000)
   \<and> fst (create_powertrain_load_feature 0 [cruise_table]) ! 0
       = set_column ''powertrain_load_W'' [Some 4000, Some 4000, Some 4000] cruise_table"
proof -
  have b: "battery_column ''battery_voltage_V'' ''voltage'' cruise_table = Some ''battery_voltage_V''"
    "battery_column ''battery_current_A'' ''current'' cruise_table = Some ''battery_current_A''"
    "column cruise_table ''battery_voltage_V'' = Some [Some 400, Some 400, Some 400]"
    "column cruise_table ''battery_current_A'' = Some [Some 10, Some 10, Some 10]"
    by (simp_all add: battery_column_def column_def cruise_table_def)
  have l: "(0::nat) < length [cruise_loaded]" and t: "(0::nat) < length [cruise_table]"
    by simp_all
  have r: "column (fst (create_rate_of_change_features stable_order 0 [cruise_loaded]) ! 3)
             ''acceleration_ms2'' = Some [Some 0, Some 0, Some 0]"
    unfolding cruise_rates cruise_rates_trip by (simp add: column_def cruise_loaded_def)
  have g: "column (fst (create_lagged_features stable_order 0 [cruise_loaded]) ! 3)
             ''speed_kmh_lag1'' = Some [Some 36, Some 36, Some 36]"
    unfolding cruise_lags cruise_lags_trip by (simp add: column_def cruise_loaded_def)
  have f: "column (fst (create_target_variables stable_order 0 [1] [cruise_loaded]) ! 4)
             ''future_load_W_1s'' = Some [Some 4000, Some 4000]"
    unfolding cruise_targets by (simp add: column_def)
  have s: "snd (create_rate_of_change_features stable_order 0 [cruise_loaded]) = Inr 3"
    "snd (create_lagged_features stable_order 0 [cruise_loaded]) = Inr 3"
    "snd (create_target_variables stable_order 0 [1] [cruise_loaded]) = Inr 4"
    "snd (create_powertrain_load_feature 0 [cruise_table]) = Inr (Some 4000)"
    unfolding cruise_rates cruise_lags cruise_targets cruise_load by simp_all
  from feature_functions_frame [OF l, of stable_order "[1]"]
    feature_functions_frame [OF t, of stable_order "[1]" "''battery_voltage_V''"
      "''battery_current_A''" "[Some 400, Some 400, Some 400]" "[Some 10, Some 10, Some 10]"]
  show ?thesis
    using r g f s by (simp add: b cmul_def)
qed

text \<open>
  C9 for the instantaneous load fails. The computation changes its input: the call on the
  cruise table returns the threshold, and afterwards the table that was passed has the load
  column, which it did not have before.
\<close>

theorem load_feature_mutates_input:
  "snd (create_powertrain_load_feature 0 [cruise_table]) = Inr (Some 4000)
   \<and> fst (create_powertrain_load_feature 0 [cruise_table]) ! 0 = cruise_loaded
   \<and> column ([cruise_table] ! 0) ''powertrain_load_W'' = None
   \<and> column cruise_loaded ''powertrain_load_W'' = Some [Some 4000, Some 4000, Some 4000]"
proof -
  have "create_powertrain_load_feature 0 [cruise_table]
          = ([cruise_loaded, cruise_loaded], Inr (Some 4000))"
    by (simp add: create_powertrain_load_feature_def battery_column_def column_def cruise_table_def
      cruise_loaded_def alloc_def Let_def cmul_def set_column_def trip_rows_def mask_rows_def
      select_rows_def nrows_def time_column_def quantile_def non_null_def List.map_filter_simps)
  then show ?thesis
    by (simp add: column_def cruise_table_def cruise_loaded_def)
qed

end
